theory Spec2Isabelle
  imports Complex_Main "HOL-Library.Sublist"
begin

section \<open>JavaScript values and array operations\<close>

text \<open>
  The two scripts read properties of platform objects and test them for truthiness
  (\<^verbatim>\<open>!url\<close>, \<^verbatim>\<open>img.src || img.href\<close>, \<^verbatim>\<open>if (video.poster)\<close>). A property that an
  element does not have reads as \<^verbatim>\<open>undefined\<close>; the \<^verbatim>\<open>href\<close> of an SVG
  \<^verbatim>\<open>image\<close> element is an object, identified here by a number so that \<^verbatim>\<open>===\<close> is
  equality of \<open>jsval\<close>. Strings are lists of bytes (UTF-8).
\<close>

datatype jsval = Undefined | Str string | Obj nat

fun truthy :: "jsval \<Rightarrow> bool" where
  "truthy Undefined = False"
| "truthy (Str s) = (s \<noteq> [])"
| "truthy (Obj i) = True"

definition js_or :: "jsval \<Rightarrow> jsval \<Rightarrow> jsval" where
  "js_or a b = (if truthy a then a else b)"

definition push :: "'a \<Rightarrow> 'a list \<Rightarrow> 'a list" where
  "push x xs = xs @ [x]"

definition forEach :: "('a \<Rightarrow> 's \<Rightarrow> 's) \<Rightarrow> 'a list \<Rightarrow> 's \<Rightarrow> 's" where
  "forEach callback xs s = fold callback xs s"

text \<open>
  The exceptions the scanner meets. A step that can throw gives either the state it
  reached, or the exception with the state at the time of the throw: what was written
  before a throw stays written.
\<close>

datatype js_exception = TypeError | SecurityError

type_synonym 's outcome = "(js_exception \<times> 's) + 's"

text \<open>\<^verbatim>\<open>forEach\<close> with a callback that can throw: the first throw ends the loop.\<close>

fun forEach_throwing :: "('a \<Rightarrow> 's \<Rightarrow> 's outcome) \<Rightarrow> 'a list \<Rightarrow> 's \<Rightarrow> 's outcome" where
  "forEach_throwing callback [] s = Inr s"
| "forEach_throwing callback (x # xs) s =
     (case callback x s of Inl thrown \<Rightarrow> Inl thrown | Inr s' \<Rightarrow> forEach_throwing callback xs s')"

fun startsWith :: "string \<Rightarrow> string \<Rightarrow> bool" where
  "startsWith s [] = True"
| "startsWith [] (p # ps) = False"
| "startsWith (c # cs) (p # ps) = (c = p \<and> startsWith cs ps)"

fun js_includes :: "string \<Rightarrow> string \<Rightarrow> bool" where
  "js_includes [] t = (t = [])"
| "js_includes (c # cs) t = (startsWith (c # cs) t \<or> js_includes cs t)"


section \<open>The timing collector (\<^verbatim>\<open>window.loadedResources\<close>)\<close>

text \<open>
  A resource timing entry as the platform delivers it; only the five fields the script
  reads. Numbers are a type parameter: the script copies them and never computes with
  them. \<^verbatim>\<open>transferSize\<close> may be absent.
\<close>

record 'n PerformanceResourceTiming =
  name :: string
  initiatorType :: string
  duration :: 'n
  transferSize :: "'n option"
  startTime :: 'n

text \<open>
  The object literal both loops push: its property names in the order the literal
  writes them, each with its value. Reading a property an object does not have gives
  \<^verbatim>\<open>undefined\<close>.
\<close>

datatype 'n js_value = PString string | PNumber 'n | PUndefined

type_synonym 'n js_object = "(string \<times> 'n js_value) list"

definition get_prop :: "'n js_object \<Rightarrow> string \<Rightarrow> 'n js_value" where
  "get_prop obj key = (case map_of obj key of None \<Rightarrow> PUndefined | Some v \<Rightarrow> v)"

definition number_or_undefined :: "'n option \<Rightarrow> 'n js_value" where
  "number_or_undefined x = (case x of None \<Rightarrow> PUndefined | Some n \<Rightarrow> PNumber n)"

definition loaded_object :: "'n PerformanceResourceTiming \<Rightarrow> 'n js_object" where
  "loaded_object entry =
     [(''name'', PString (name entry)),
      (''type'', PString (initiatorType entry)),
      (''duration'', PNumber (duration entry)),
      (''size'', number_or_undefined (transferSize entry)),
      (''startTime'', PNumber (startTime entry))]"

record 'n window =
  loadedResources :: "'n js_object list"

definition record_entry :: "'n PerformanceResourceTiming \<Rightarrow> 'n window \<Rightarrow> 'n window" where
  "record_entry entry w = w\<lparr>loadedResources := push (loaded_object entry) (loadedResources w)\<rparr>"

text \<open>
  The top level of the script: the global is reset to the empty array, then the entries
  \<^verbatim>\<open>performance.getEntriesByType('resource')\<close> returned, here \<open>initialResources\<close>, are
  pushed in their order.
\<close>

definition collector_script :: "'n PerformanceResourceTiming list \<Rightarrow> 'n window \<Rightarrow> 'n window" where
  "collector_script initialResources w =
     forEach record_entry initialResources (w\<lparr>loadedResources := []\<rparr>)"

text \<open>The observer's callback, called with the entries of one delivery.\<close>

definition observer :: "'n PerformanceResourceTiming list \<Rightarrow> 'n window \<Rightarrow> 'n window" where
  "observer entries w = forEach record_entry entries w"

text \<open>A run of the collector: the script, then the deliveries the platform makes.\<close>

definition collector_run ::
  "'n PerformanceResourceTiming list \<Rightarrow> 'n PerformanceResourceTiming list list \<Rightarrow> 'n window \<Rightarrow> 'n window" where
  "collector_run initialResources deliveries w =
     fold observer deliveries (collector_script initialResources w)"

text \<open>The field names of a collector record as the specification lists them.\<close>

definition spec_fields :: "string list" where
  "spec_fields = [''name'', ''initiatorType'', ''duration'', ''transferSize'', ''startTime'']"

definition non_negative :: "('n::{zero,ord}) js_value \<Rightarrow> bool" where
  "non_negative v = (case v of PNumber n \<Rightarrow> 0 \<le> n | PString s \<Rightarrow> False | PUndefined \<Rightarrow> False)"

definition non_negative_or_absent :: "('n::{zero,ord}) js_value \<Rightarrow> bool" where
  "non_negative_or_absent v = (v = PUndefined \<or> non_negative v)"

text \<open>An entry as the platform may deliver it (times in milliseconds, size in bytes).\<close>

definition example_entry :: "real PerformanceResourceTiming" where
  "example_entry =
     \<lparr>name = ''https://cdn.example.com/app.css'', initiatorType = ''link'',
      duration = 12.5, transferSize = Some 2048, startTime = 100\<rparr>"


section \<open>The document\<close>

text \<open>
  An element carries its local name, the names of the content attributes it has (what
  the selectors test) and the values of the properties the scanner reads. Any of
  \<^verbatim>\<open>rel\<close>, \<^verbatim>\<open>href\<close>, \<^verbatim>\<open>src\<close>, \<^verbatim>\<open>poster\<close> and \<^verbatim>\<open>data\<close> can be undefined: a
  selector matches on the name and the attributes, so \<^verbatim>\<open>link[href]\<close> also selects a
  \<^verbatim>\<open>link\<close> element of the SVG or MathML namespace, which has no \<^verbatim>\<open>rel\<close> and no
  \<^verbatim>\<open>href\<close> property. The computed \<^verbatim>\<open>backgroundImage\<close> is a string for every element.
\<close>

record element =
  localName :: string
  attributes :: "string list"
  rel :: jsval
  href :: jsval
  src :: jsval
  poster :: jsval
  data :: jsval
  backgroundImage :: string

datatype node = Node element "node list"

datatype css_rule = CSSFontFaceRule string | OtherRule

text \<open>
  A style sheet has its rules (\<open>None\<close> when the platform gives \<^verbatim>\<open>null\<close>), and the
  platform may deny reading them (a cross-origin sheet): the getter then throws.
\<close>

record styleSheet =
  access_denied :: bool
  rules :: "css_rule list option"

definition cssRules :: "styleSheet \<Rightarrow> js_exception + css_rule list option" where
  "cssRules sheet = (if access_denied sheet then Inl SecurityError else Inr (rules sheet))"

record document =
  childNodes :: "node list"
  styleSheets :: "styleSheet list"


subsection \<open>Selectors\<close>

text \<open>
  The selectors of the source are lists of \<^verbatim>\<open>tag[attr]\<close>, \<^verbatim>\<open>anc tag[attr]\<close> and
  \<^verbatim>\<open>*\<close>. \<open>Compound t a\<close> is a type selector \<open>t\<close> (\<open>None\<close> for \<^verbatim>\<open>*\<close>) with
  an optional attribute-presence test; \<open>Inside a c\<close> is the descendant combinator.
\<close>

datatype compound = Compound "string option" "string option"

datatype complex = Is compound | Inside compound compound

fun matches_compound :: "compound \<Rightarrow> element \<Rightarrow> bool" where
  "matches_compound (Compound t a) e =
     ((case t of None \<Rightarrow> True | Some n \<Rightarrow> localName e = n) \<and>
      (case a of None \<Rightarrow> True | Some n \<Rightarrow> n \<in> set (attributes e)))"

fun matches :: "complex \<Rightarrow> element list \<Rightarrow> element \<Rightarrow> bool" where
  "matches (Is c) ancestors e = matches_compound c e"
| "matches (Inside a c) ancestors e =
     (matches_compound c e \<and> list_ex (matches_compound a) ancestors)"

text \<open>The elements of a subtree in document order, each with its ancestors.\<close>

fun descendants :: "element list \<Rightarrow> node \<Rightarrow> (element list \<times> element) list" where
  "descendants ancestors (Node e children) =
     (ancestors, e) # concat (map (descendants (e # ancestors)) children)"

definition all_elements :: "document \<Rightarrow> (element list \<times> element) list" where
  "all_elements d = concat (map (descendants []) (childNodes d))"

definition querySelectorAll :: "document \<Rightarrow> complex list \<Rightarrow> element list" where
  "querySelectorAll d selectors =
     map snd (filter (\<lambda>(ancestors, e). list_ex (\<lambda>c. matches c ancestors e) selectors)
                (all_elements d))"

definition sel_links :: "complex list" where \<comment> \<open>\<^verbatim>\<open>link[href]\<close>\<close>
  "sel_links = [Is (Compound (Some ''link'') (Some ''href''))]"

definition sel_scripts :: "complex list" where \<comment> \<open>\<^verbatim>\<open>script[src]\<close>\<close>
  "sel_scripts = [Is (Compound (Some ''script'') (Some ''src''))]"

definition sel_images :: "complex list" where \<comment> \<open>\<^verbatim>\<open>img[src], source[src], image[href]\<close>\<close>
  "sel_images = [Is (Compound (Some ''img'') (Some ''src'')),
                 Is (Compound (Some ''source'') (Some ''src'')),
                 Is (Compound (Some ''image'') (Some ''href''))]"

definition sel_videos :: "complex list" where \<comment> \<open>\<^verbatim>\<open>video source[src], video[poster]\<close>\<close>
  "sel_videos = [Inside (Compound (Some ''video'') None) (Compound (Some ''source'') (Some ''src'')),
                 Is (Compound (Some ''video'') (Some ''poster''))]"

definition sel_audios :: "complex list" where \<comment> \<open>\<^verbatim>\<open>audio source[src]\<close>\<close>
  "sel_audios = [Inside (Compound (Some ''audio'') None) (Compound (Some ''source'') (Some ''src''))]"

definition sel_all :: "complex list" where \<comment> \<open>\<^verbatim>\<open>*\<close>\<close>
  "sel_all = [Is (Compound None None)]"

definition sel_frames :: "complex list" where \<comment> \<open>\<^verbatim>\<open>iframe[src], embed[src]\<close>\<close>
  "sel_frames = [Is (Compound (Some ''iframe'') (Some ''src'')),
                 Is (Compound (Some ''embed'') (Some ''src''))]"

definition sel_objects :: "complex list" where \<comment> \<open>\<^verbatim>\<open>object[data]\<close>\<close>
  "sel_objects = [Is (Compound (Some ''object'') (Some ''data''))]"


subsection \<open>The regular expression \<^verbatim>\<open>/url\(["']?(.*?)["']?\)/\<close>\<close>

definition is_quote :: "char \<Rightarrow> bool" where
  "is_quote c = (c = CHR 0x22 \<or> c = CHR 0x27)"

text \<open>
  \<^verbatim>\<open>.\<close> matches no line terminator: LF, CR, U+2028 and U+2029 (the last two are three
  bytes each in UTF-8).
\<close>

fun line_terminator :: "string \<Rightarrow> bool" where
  "line_terminator [] = False"
| "line_terminator (c # cs) =
     (c = CHR 0x0A \<or> c = CHR 0x0D \<or>
      (c = CHR 0xE2 \<and> (take 2 cs = [CHR 0x80, CHR 0xA8] \<or> take 2 cs = [CHR 0x80, CHR 0xA9])))"

text \<open>\<^verbatim>\<open>["']?\)\<close> at the head of the text: a closing parenthesis, or a quote and one.\<close>

fun closes :: "string \<Rightarrow> bool" where
  "closes [] = False"
| "closes (c # cs) =
     (c = CHR '')'' \<or> (is_quote c \<and> (case cs of [] \<Rightarrow> False | d # ds \<Rightarrow> d = CHR '')'')))"

text \<open>
  The lazy group \<^verbatim>\<open>(.*?)\<close> followed by \<^verbatim>\<open>["']?\)\<close>: the shortest run of characters
  after which the text closes; no match when a line terminator or the end comes first.
\<close>

fun lazy_group :: "string \<Rightarrow> string option" where
  "lazy_group [] = None"
| "lazy_group (c # cs) =
     (if closes (c # cs) then Some []
      else if line_terminator (c # cs) then None
      else map_option ((#) c) (lazy_group cs))"

text \<open>
  A match that starts at the head of the text: \<^verbatim>\<open>url(\<close>, then the optional quote is
  taken when it is there, and given back when the rest does not match with it taken.
\<close>

definition match_here :: "string \<Rightarrow> string option" where
  "match_here s =
     (if startsWith s ''url('' then
        (case drop 4 s of
           [] \<Rightarrow> None
         | q # r \<Rightarrow>
             if is_quote q then
               (case lazy_group r of Some g \<Rightarrow> Some g | None \<Rightarrow> lazy_group (q # r))
             else lazy_group (q # r))
      else None)"

text \<open>\<^verbatim>\<open>s.match(re)\<close> for this expression: group 1 of the leftmost match, or \<^verbatim>\<open>null\<close>.\<close>

fun url_match :: "string \<Rightarrow> string option" where
  "url_match [] = None"
| "url_match (c # cs) =
     (case match_here (c # cs) of Some g \<Rightarrow> Some g | None \<Rightarrow> url_match cs)"


section \<open>The resource scanner (\<^verbatim>\<open>getAllPageResources\<close>)\<close>

record resource =
  url :: jsval
  type :: string

text \<open>
  The state the function works on: the document it reads and its local array
  \<^verbatim>\<open>resources\<close>.
\<close>

record scan_state =
  document :: document
  resources :: "resource list"

definition addResource :: "jsval \<Rightarrow> string \<Rightarrow> scan_state \<Rightarrow> scan_state" where
  "addResource u t s =
     (if \<not> truthy u \<or> list_ex (\<lambda>res. url res = u) (resources s) then s
      else s\<lparr>resources := push \<lparr>url = u, type = t\<rparr> (resources s)\<rparr>)"

text \<open>
  Line 12: \<^verbatim>\<open>link.rel.includes('stylesheet') ? 'css' : link.rel || 'link'\<close>. The
  method call comes first and has no guard: when \<^verbatim>\<open>rel\<close> is undefined, or an object
  without the method, it throws \<^verbatim>\<open>TypeError\<close>.
\<close>

definition link_type :: "element \<Rightarrow> js_exception + string" where
  "link_type link =
     (case rel link of
        Str r \<Rightarrow> Inr (if js_includes r ''stylesheet'' then ''css''
                      else if r \<noteq> [] then r else ''link'')
      | Undefined \<Rightarrow> Inl TypeError
      | Obj i \<Rightarrow> Inl TypeError)"

definition link_callback :: "element \<Rightarrow> scan_state \<Rightarrow> scan_state outcome" where
  "link_callback link s =
     (case link_type link of
        Inl e \<Rightarrow> Inl (e, s)
      | Inr t \<Rightarrow> Inr (addResource (href link) t s))"

definition collect_links :: "scan_state \<Rightarrow> scan_state outcome" where
  "collect_links s =
     forEach_throwing link_callback (querySelectorAll (document s) sel_links) s"

definition collect_scripts :: "scan_state \<Rightarrow> scan_state" where
  "collect_scripts s =
     forEach (\<lambda>script. addResource (src script) ''js'')
       (querySelectorAll (document s) sel_scripts) s"

definition collect_images :: "scan_state \<Rightarrow> scan_state" where
  "collect_images s =
     forEach (\<lambda>img. addResource (js_or (src img) (href img)) ''image'')
       (querySelectorAll (document s) sel_images) s"

definition video_callback :: "element \<Rightarrow> scan_state \<Rightarrow> scan_state" where
  "video_callback video s =
     (let s1 = (if truthy (src video) then addResource (src video) ''video'' s else s)
      in if truthy (poster video) then addResource (poster video) ''video_poster'' s1 else s1)"

definition collect_videos :: "scan_state \<Rightarrow> scan_state" where
  "collect_videos s =
     forEach video_callback (querySelectorAll (document s) sel_videos) s"

definition collect_audios :: "scan_state \<Rightarrow> scan_state" where
  "collect_audios s =
     forEach (\<lambda>audio. addResource (src audio) ''audio'')
       (querySelectorAll (document s) sel_audios) s"

definition background_callback :: "element \<Rightarrow> scan_state \<Rightarrow> scan_state" where
  "background_callback element s =
     (case url_match (backgroundImage element) of
        None \<Rightarrow> s
      | Some g \<Rightarrow> if g \<noteq> [] then addResource (Str g) ''css_background_image'' s else s)"

definition collect_backgrounds :: "scan_state \<Rightarrow> scan_state" where
  "collect_backgrounds s =
     forEach background_callback (querySelectorAll (document s) sel_all) s"

definition collect_frames :: "scan_state \<Rightarrow> scan_state" where
  "collect_frames s =
     forEach (\<lambda>frame. addResource (src frame) ''embedded_content'')
       (querySelectorAll (document s) sel_frames) s"

definition collect_objects :: "scan_state \<Rightarrow> scan_state" where
  "collect_objects s =
     forEach (\<lambda>obj. addResource (data obj) ''object_data'')
       (querySelectorAll (document s) sel_objects) s"

definition rule_callback :: "css_rule \<Rightarrow> scan_state \<Rightarrow> scan_state" where
  "rule_callback rule s =
     (case rule of
        OtherRule \<Rightarrow> s
      | CSSFontFaceRule style_src \<Rightarrow>
          (case url_match style_src of
             None \<Rightarrow> s
           | Some g \<Rightarrow> if g \<noteq> [] then addResource (Str g) ''font'' s else s))"

text \<open>The body of the \<^verbatim>\<open>try\<close>: it throws what the getter throws.\<close>

definition sheet_try :: "styleSheet \<Rightarrow> scan_state \<Rightarrow> scan_state outcome" where
  "sheet_try sheet s =
     (case cssRules sheet of
        Inl e \<Rightarrow> Inl (e, s)
      | Inr rs \<Rightarrow> Inr (forEach rule_callback (case rs of None \<Rightarrow> [] | Some l \<Rightarrow> l) s))"

text \<open>
  \<^verbatim>\<open>try { ... } catch (e) { }\<close>: the exception is dropped and the loop over the sheets
  goes on from the state at the throw.
\<close>

definition sheet_callback :: "styleSheet \<Rightarrow> scan_state \<Rightarrow> scan_state" where
  "sheet_callback sheet s = (case sheet_try sheet s of Inl (e, s') \<Rightarrow> s' | Inr s' \<Rightarrow> s')"

definition collect_fonts :: "scan_state \<Rightarrow> scan_state" where
  "collect_fonts s = forEach sheet_callback (styleSheets (document s)) s"

text \<open>
  The body of the function. Nothing catches what the first loop throws, so a throw there
  ends the call; the eight other loops cannot throw.
\<close>

definition getAllPageResources_body :: "scan_state \<Rightarrow> scan_state outcome" where
  "getAllPageResources_body s =
     (case collect_links s of
        Inl thrown \<Rightarrow> Inl thrown
      | Inr s1 \<Rightarrow>
          Inr (collect_fonts (collect_objects (collect_frames (collect_backgrounds
                (collect_audios (collect_videos (collect_images (collect_scripts s1)))))))))"

text \<open>
  A call: the array starts empty, the body runs, and the call returns the array or
  throws. \<open>invoke\<close> keeps the state the call ends in, so that what the call leaves
  behind can be stated.
\<close>

definition invoke :: "document \<Rightarrow> scan_state outcome" where
  "invoke d = getAllPageResources_body \<lparr>document = d, resources = []\<rparr>"

definition final_state :: "scan_state outcome \<Rightarrow> scan_state" where
  "final_state x = (case x of Inl (e, s) \<Rightarrow> s | Inr s \<Rightarrow> s)"

definition getAllPageResources :: "document \<Rightarrow> js_exception + resource list" where
  "getAllPageResources d =
     (case invoke d of Inl (e, s) \<Rightarrow> Inl e | Inr s \<Rightarrow> Inr (resources s))"


subsection \<open>The calls of \<^verbatim>\<open>addResource\<close> a scan makes\<close>

text \<open>
  For stating which predicate comes first: the arguments of the calls of
  \<^verbatim>\<open>addResource\<close> that each of the nine predicates makes on a document, in the order
  it makes them, and the nine lists in the order the predicates run. A link whose type
  cannot be computed makes no call.
\<close>

definition link_calls :: "element \<Rightarrow> (jsval \<times> string) list" where
  "link_calls link = (case link_type link of Inl e \<Rightarrow> [] | Inr t \<Rightarrow> [(href link, t)])"

definition link_candidates :: "document \<Rightarrow> (jsval \<times> string) list" where
  "link_candidates d = concat (map link_calls (querySelectorAll d sel_links))"

definition script_candidates :: "document \<Rightarrow> (jsval \<times> string) list" where
  "script_candidates d = map (\<lambda>script. (src script, ''js'')) (querySelectorAll d sel_scripts)"

definition image_candidates :: "document \<Rightarrow> (jsval \<times> string) list" where
  "image_candidates d =
     map (\<lambda>img. (js_or (src img) (href img), ''image'')) (querySelectorAll d sel_images)"

definition video_calls :: "element \<Rightarrow> (jsval \<times> string) list" where
  "video_calls video =
     (if truthy (src video) then [(src video, ''video'')] else []) @
     (if truthy (poster video) then [(poster video, ''video_poster'')] else [])"

definition video_candidates :: "document \<Rightarrow> (jsval \<times> string) list" where
  "video_candidates d = concat (map video_calls (querySelectorAll d sel_videos))"

definition audio_candidates :: "document \<Rightarrow> (jsval \<times> string) list" where
  "audio_candidates d = map (\<lambda>audio. (src audio, ''audio'')) (querySelectorAll d sel_audios)"

definition css_url_calls :: "string \<Rightarrow> string \<Rightarrow> (jsval \<times> string) list" where
  "css_url_calls t v =
     (case url_match v of None \<Rightarrow> [] | Some g \<Rightarrow> if g \<noteq> [] then [(Str g, t)] else [])"

definition background_candidates :: "document \<Rightarrow> (jsval \<times> string) list" where
  "background_candidates d =
     concat (map (\<lambda>element. css_url_calls ''css_background_image'' (backgroundImage element))
               (querySelectorAll d sel_all))"

definition frame_candidates :: "document \<Rightarrow> (jsval \<times> string) list" where
  "frame_candidates d =
     map (\<lambda>frame. (src frame, ''embedded_content'')) (querySelectorAll d sel_frames)"

definition object_candidates :: "document \<Rightarrow> (jsval \<times> string) list" where
  "object_candidates d = map (\<lambda>obj. (data obj, ''object_data'')) (querySelectorAll d sel_objects)"

definition rule_calls :: "css_rule \<Rightarrow> (jsval \<times> string) list" where
  "rule_calls rule =
     (case rule of OtherRule \<Rightarrow> [] | CSSFontFaceRule style_src \<Rightarrow> css_url_calls ''font'' style_src)"

definition sheet_calls :: "styleSheet \<Rightarrow> (jsval \<times> string) list" where
  "sheet_calls sheet =
     (if access_denied sheet then []
      else concat (map rule_calls (case rules sheet of None \<Rightarrow> [] | Some l \<Rightarrow> l)))"

definition font_candidates :: "document \<Rightarrow> (jsval \<times> string) list" where
  "font_candidates d = concat (map sheet_calls (styleSheets d))"

definition predicate_candidates :: "document \<Rightarrow> (jsval \<times> string) list list" where
  "predicate_candidates d =
     [link_candidates d, script_candidates d, image_candidates d, video_candidates d,
      audio_candidates d, background_candidates d, frame_candidates d, object_candidates d,
      font_candidates d]"

definition candidates :: "document \<Rightarrow> (jsval \<times> string) list" where
  "candidates d = concat (predicate_candidates d)"

definition add_all :: "(jsval \<times> string) list \<Rightarrow> scan_state \<Rightarrow> scan_state" where
  "add_all calls s = fold (\<lambda>(u, t). addResource u t) calls s"

text \<open>What those calls record, from an empty array.\<close>

definition recorded :: "document \<Rightarrow> resource list" where
  "recorded d = resources (add_all (candidates d) \<lparr>document = d, resources = []\<rparr>)"

text \<open>Every element that \<^verbatim>\<open>link[href]\<close> selects has a string for its \<^verbatim>\<open>rel\<close>.\<close>

fun is_string :: "jsval \<Rightarrow> bool" where
  "is_string (Str r) = True"
| "is_string Undefined = False"
| "is_string (Obj i) = False"

definition rel_strings :: "document \<Rightarrow> bool" where
  "rel_strings d = list_all (\<lambda>link. is_string (rel link)) (querySelectorAll d sel_links)"

text \<open>The records of an array as an association list from url to type.\<close>

definition kinds :: "resource list \<Rightarrow> (jsval \<times> string) list" where
  "kinds rs = map (\<lambda>r. (url r, type r)) rs"


subsection \<open>Vocabulary of the statements\<close>

text \<open>
  What a scan can observe of a document: the results of its eight queries and, for each
  style sheet in order, what reading its rules gives.
\<close>

definition observations ::
  "document \<Rightarrow> element list list \<times> (js_exception + css_rule list option) list" where
  "observations d =
     (map (querySelectorAll d)
        [sel_links, sel_scripts, sel_images, sel_videos, sel_audios, sel_all, sel_frames, sel_objects],
      map cssRules (styleSheets d))"

text \<open>
  The kinds as the specification's format table words them, and its condition on a
  record's kind: one of these, or the raw relation string of the link it comes from.
\<close>

definition spec_kinds :: "string list" where
  "spec_kinds = [''stylesheet'', ''script'', ''image'', ''video'', ''video-poster'', ''audio'',
                 ''css-background-image'', ''embedded-content'', ''object-data'', ''font'']"

definition spec_kind :: "document \<Rightarrow> resource \<Rightarrow> bool" where
  "spec_kind d r =
     (type r \<in> set spec_kinds \<or>
      (\<exists>link\<in>set (querySelectorAll d sel_links).
          url r = href link \<and> rel link = Str (type r)))"

text \<open>The ten type strings the source passes to \<^verbatim>\<open>addResource\<close> as literals.\<close>

definition code_kinds :: "string list" where
  "code_kinds = [''css'', ''js'', ''image'', ''video'', ''video_poster'', ''audio'',
                 ''css_background_image'', ''embedded_content'', ''object_data'', ''font'']"

text \<open>Some suffix of the text closes.\<close>

fun has_close :: "string \<Rightarrow> bool" where
  "has_close [] = False"
| "has_close (c # cs) = (closes (c # cs) \<or> has_close cs)"

text \<open>Some suffix of the text starts with a line terminator.\<close>

fun has_line_terminator :: "string \<Rightarrow> bool" where
  "has_line_terminator [] = False"
| "has_line_terminator (c # cs) = (line_terminator (c # cs) \<or> has_line_terminator cs)"

text \<open>An address with no closing parenthesis and no line terminator.\<close>

definition url_text :: "string \<Rightarrow> bool" where
  "url_text g = (CHR '')'' \<notin> set g \<and> \<not> has_line_terminator g)"

text \<open>
  The text between the parentheses without its opening quote, when it starts with one,
  and then without its closing quote, when it ends with one.
\<close>

definition unquote :: "string \<Rightarrow> string" where
  "unquote a =
     (let b = (if a \<noteq> [] \<and> is_quote (hd a) then tl a else a)
      in if b \<noteq> [] \<and> is_quote (last b) then butlast b else b)"

text \<open>An occurrence of \<^verbatim>\<open>url(\<close> in \<open>pre @ s\<close> starts within \<open>pre\<close>.\<close>

fun begins_url :: "string \<Rightarrow> string \<Rightarrow> bool" where
  "begins_url [] s = False"
| "begins_url (c # cs) s = (startsWith (c # cs @ s) ''url('' \<or> begins_url cs s)"


subsection \<open>Example documents\<close>

text \<open>
  An element with none of the properties (as a \<^verbatim>\<open>div\<close> has none of them), and
  \<^verbatim>\<open>background-image: none\<close>.
\<close>

definition blank :: "string \<Rightarrow> string list \<Rightarrow> element" where
  "blank tag attrs =
     \<lparr>localName = tag, attributes = attrs, rel = Undefined, href = Undefined, src = Undefined,
      poster = Undefined, data = Undefined, backgroundImage = ''none''\<rparr>"

text \<open>
  \<^verbatim>\<open><html><head><link rel="stylesheet" href="a.css"></head>
  <body><img src="a.css"></body></html>\<close>
\<close>

definition scenario_A :: document where
  "scenario_A =
     \<lparr>childNodes =
        [Node (blank ''html'' [])
           [Node (blank ''head'' [])
              [Node ((blank ''link'' [''rel'', ''href''])
                       \<lparr>rel := Str ''stylesheet'', href := Str ''a.css''\<rparr>) []],
            Node (blank ''body'' [])
              [Node ((blank ''img'' [''src''])\<lparr>src := Str ''a.css''\<rparr>) []]]],
      styleSheets = []\<rparr>"

text \<open>
  \<^verbatim>\<open><video poster="p.png" src="m.mp4"><source src="m.mp4"></video>
  <audio><source src="m.mp4"></audio> <object data="p.png"></object>\<close>
\<close>

definition scenario_media :: document where
  "scenario_media =
     \<lparr>childNodes =
        [Node (blank ''html'' [])
           [Node (blank ''body'' [])
              [Node ((blank ''video'' [''poster'', ''src''])
                       \<lparr>src := Str ''m.mp4'', poster := Str ''p.png''\<rparr>)
                 [Node ((blank ''source'' [''src''])\<lparr>src := Str ''m.mp4''\<rparr>) []],
               Node (blank ''audio'' [])
                 [Node ((blank ''source'' [''src''])\<lparr>src := Str ''m.mp4''\<rparr>) []],
               Node ((blank ''object'' [''data''])\<lparr>data := Str ''p.png''\<rparr>) []]]],
      styleSheets = []\<rparr>"

text \<open>
  Two style sheets, each with one \<^verbatim>\<open>@font-face\<close> rule; the first is cross-origin
  and the platform denies reading its rules. The second rule's source is
  \<^verbatim>\<open>url("b.woff") format("woff")\<close>.
\<close>

definition cross_origin_sheet :: styleSheet where
  "cross_origin_sheet = \<lparr>access_denied = True, rules = Some [CSSFontFaceRule ''url(a.woff)'']\<rparr>"

definition font_src :: string where
  "font_src =
     ''url('' @ [CHR 0x22] @ ''b.woff'' @ [CHR 0x22] @ '') format('' @ [CHR 0x22] @ ''woff'' @
     [CHR 0x22] @ '')''"

definition same_origin_sheet :: styleSheet where
  "same_origin_sheet = \<lparr>access_denied = False, rules = Some [CSSFontFaceRule font_src]\<rparr>"

definition scenario_C :: document where
  "scenario_C =
     \<lparr>childNodes = [Node (blank ''html'' []) [Node (blank ''body'' []) []]],
      styleSheets = [cross_origin_sheet, same_origin_sheet]\<rparr>"

text \<open>
  \<^verbatim>\<open><link rel="stylesheet" href="a.css"> <link href="favicon.ico">\<close>; the second
  has no \<^verbatim>\<open>rel\<close> attribute, its \<^verbatim>\<open>rel\<close> property is the empty string.
\<close>

definition stylesheet_link :: element where
  "stylesheet_link =
     (blank ''link'' [''rel'', ''href''])\<lparr>rel := Str ''stylesheet'', href := Str ''a.css''\<rparr>"

definition bare_link :: element where
  "bare_link = (blank ''link'' [''href''])\<lparr>rel := Str [], href := Str ''favicon.ico''\<rparr>"

definition scenario_links :: document where
  "scenario_links =
     \<lparr>childNodes =
        [Node (blank ''html'' [])
           [Node (blank ''head'' []) [Node stylesheet_link [], Node bare_link []],
            Node (blank ''body'' []) []]],
      styleSheets = []\<rparr>"

text \<open>The document of scenario C with other rules in the sheet that cannot be read.\<close>

definition scenario_C_hidden :: document where
  "scenario_C_hidden =
     scenario_C\<lparr>styleSheets := [cross_origin_sheet\<lparr>rules := None\<rparr>, same_origin_sheet]\<rparr>"

text \<open>
  \<^verbatim>\<open><img src=""> <script src> <div style="background-image: url()"> <iframe src="">\<close>
  with a \<^verbatim>\<open>@font-face\<close> rule whose source is \<^verbatim>\<open>local(Arial)\<close>: every address is empty
  or missing (the script element is one whose \<^verbatim>\<open>src\<close> property is undefined).
\<close>

definition scenario_empty :: document where
  "scenario_empty =
     \<lparr>childNodes =
        [Node (blank ''html'' [])
           [Node (blank ''body'' [])
              [Node ((blank ''img'' [''src''])\<lparr>src := Str []\<rparr>) [],
               Node (blank ''script'' [''src'']) [],
               Node ((blank ''div'' [''style''])\<lparr>backgroundImage := ''url()''\<rparr>) [],
               Node ((blank ''iframe'' [''src''])\<lparr>src := Str []\<rparr>) []]]],
      styleSheets = [\<lparr>access_denied = False, rules = Some [CSSFontFaceRule ''local(Arial)'']\<rparr>]\<rparr>"

text \<open>
  The computed value \<^verbatim>\<open>url("a.png"), url("b.png")\<close> of two background layers, in
  two parts, and an element that has it.
\<close>

definition first_layer :: string where
  "first_layer = ''url('' @ [CHR 0x22] @ ''a.png'' @ [CHR 0x22] @ '')''"

definition second_layer :: string where
  "second_layer = '', url('' @ [CHR 0x22] @ ''b.png'' @ [CHR 0x22] @ '')''"

definition two_layer_div :: element where
  "two_layer_div = (blank ''div'' [''style''])\<lparr>backgroundImage := first_layer @ second_layer\<rparr>"

text \<open>
  A value whose first \<^verbatim>\<open>url(...)\<close> has a line feed before its closing parenthesis:
  \<^verbatim>\<open>url(a\<close>, line feed, \<^verbatim>\<open>b), url("b.png")\<close>; an element that has it, and a document
  with both elements.
\<close>

definition broken_layer :: string where
  "broken_layer = ''url(a'' @ [CHR 0x0A] @ ''b)''"

definition broken_div :: element where
  "broken_div = (blank ''div'' [''style''])\<lparr>backgroundImage := broken_layer @ second_layer\<rparr>"

definition scenario_layers :: document where
  "scenario_layers =
     \<lparr>childNodes =
        [Node (blank ''html'' [])
           [Node (blank ''body'' []) [Node two_layer_div [], Node broken_div []]]],
      styleSheets = []\<rparr>"

text \<open>
  \<^verbatim>\<open><svg><link href="x.css"/></svg>\<close>: the parser keeps \<^verbatim>\<open>link\<close> in the SVG
  namespace, where the element has the attribute but neither a \<^verbatim>\<open>rel\<close> nor a
  \<^verbatim>\<open>href\<close> property. Once alone in a document, once in the document of scenario C.
\<close>

definition svg_link :: element where
  "svg_link = blank ''link'' [''href'']"

definition scenario_svg_link :: document where
  "scenario_svg_link =
     \<lparr>childNodes =
        [Node (blank ''html'' [])
           [Node (blank ''body'' []) [Node (blank ''svg'' []) [Node svg_link []]]]],
      styleSheets = []\<rparr>"

definition scenario_C_svg_link :: document where
  "scenario_C_svg_link = scenario_svg_link\<lparr>styleSheets := styleSheets scenario_C\<rparr>"


section \<open>Properties of the scanner\<close>

subsection \<open>A scan is its calls of \<^verbatim>\<open>addResource\<close>, in order\<close>

lemma document_addResource [simp]: "document (addResource u t s) = document s"
  by (simp add: addResource_def)

lemma add_all_Nil [simp]: "add_all [] s = s"
  by (simp add: add_all_def)

lemma add_all_Cons [simp]: "add_all ((u, t) # cs) s = add_all cs (addResource u t s)"
  by (simp add: add_all_def)

lemma add_all_append [simp]: "add_all (xs @ ys) s = add_all ys (add_all xs s)"
  by (simp add: add_all_def)

lemma document_add_all [simp]: "document (add_all cs s) = document s"
  by (induction cs arbitrary: s) auto

lemma forEach_calls:
  assumes "\<And>x s. callback x s = add_all (calls x) s"
  shows "forEach callback xs s = add_all (concat (map calls xs)) s"
  using assms by (induction xs arbitrary: s) (simp_all add: forEach_def)

lemma forEach_call:
  "forEach (\<lambda>x. addResource (f x) (g x)) xs s = add_all (map (\<lambda>x. (f x, g x)) xs) s"
  by (induction xs arbitrary: s) (simp_all add: forEach_def)

lemma link_type_string: "is_string (rel link) \<Longrightarrow> \<exists>t. link_type link = Inr t"
  by (cases "rel link") (simp_all add: link_type_def)

lemma link_type_throws: "\<not> is_string (rel link) \<Longrightarrow> link_type link = Inl TypeError"
  by (cases "rel link") (simp_all add: link_type_def)

lemma link_callback_calls:
  "is_string (rel link) \<Longrightarrow> link_callback link s = Inr (add_all (link_calls link) s)"
  by (auto simp: link_callback_def link_calls_def dest: link_type_string)

lemma link_callback_throws:
  "\<not> is_string (rel link) \<Longrightarrow> link_callback link s = Inl (TypeError, s)"
  by (simp add: link_callback_def link_type_throws)

lemma links_return:
  "list_all (\<lambda>link. is_string (rel link)) ls \<Longrightarrow>
   forEach_throwing link_callback ls s = Inr (add_all (concat (map link_calls ls)) s)"
  by (induction ls arbitrary: s) (simp_all add: link_callback_calls)

lemma links_throw:
  "\<not> list_all (\<lambda>link. is_string (rel link)) ls \<Longrightarrow>
   \<exists>s'. forEach_throwing link_callback ls s = Inl (TypeError, s') \<and> document s' = document s"
proof (induction ls arbitrary: s)
  case Nil
  then show ?case by simp
next
  case (Cons l ls)
  show ?case
  proof (cases "is_string (rel l)")
    case True
    with Cons.prems have "\<not> list_all (\<lambda>link. is_string (rel link)) ls" by simp
    from Cons.IH [OF this, of "add_all (link_calls l) s"] True show ?thesis
      by (simp add: link_callback_calls)
  next
    case False
    then show ?thesis by (simp add: link_callback_throws)
  qed
qed

lemma collect_links_calls:
  "rel_strings (document s) \<Longrightarrow> collect_links s = Inr (add_all (link_candidates (document s)) s)"
  by (simp add: collect_links_def link_candidates_def rel_strings_def links_return)

lemma collect_links_throws:
  "\<not> rel_strings (document s) \<Longrightarrow>
   \<exists>s'. collect_links s = Inl (TypeError, s') \<and> document s' = document s"
  by (simp add: collect_links_def rel_strings_def links_throw)

lemma collect_scripts_calls: "collect_scripts s = add_all (script_candidates (document s)) s"
  by (simp add: collect_scripts_def script_candidates_def forEach_call)

lemma collect_images_calls: "collect_images s = add_all (image_candidates (document s)) s"
  by (simp add: collect_images_def image_candidates_def forEach_call)

lemma video_callback_calls: "video_callback video s = add_all (video_calls video) s"
  by (simp add: video_callback_def video_calls_def Let_def)

lemma collect_videos_calls: "collect_videos s = add_all (video_candidates (document s)) s"
  by (simp add: collect_videos_def video_candidates_def forEach_calls [OF video_callback_calls])

lemma collect_audios_calls: "collect_audios s = add_all (audio_candidates (document s)) s"
  by (simp add: collect_audios_def audio_candidates_def forEach_call)

lemma background_callback_calls:
  "background_callback element s =
     add_all (css_url_calls ''css_background_image'' (backgroundImage element)) s"
  by (simp add: background_callback_def css_url_calls_def split: option.split)

lemma collect_backgrounds_calls:
  "collect_backgrounds s = add_all (background_candidates (document s)) s"
  by (simp add: collect_backgrounds_def background_candidates_def
      forEach_calls [OF background_callback_calls])

lemma collect_frames_calls: "collect_frames s = add_all (frame_candidates (document s)) s"
  by (simp add: collect_frames_def frame_candidates_def forEach_call)

lemma collect_objects_calls: "collect_objects s = add_all (object_candidates (document s)) s"
  by (simp add: collect_objects_def object_candidates_def forEach_call)

lemma rule_callback_calls: "rule_callback rule s = add_all (rule_calls rule) s"
  by (simp add: rule_callback_def rule_calls_def css_url_calls_def
      split: css_rule.split option.split)

lemma sheet_callback_calls: "sheet_callback sheet s = add_all (sheet_calls sheet) s"
  by (simp add: sheet_callback_def sheet_try_def cssRules_def sheet_calls_def
      forEach_calls [OF rule_callback_calls])

lemma collect_fonts_calls: "collect_fonts s = add_all (font_candidates (document s)) s"
  by (simp add: collect_fonts_def font_candidates_def forEach_calls [OF sheet_callback_calls])

lemma body_calls:
  "rel_strings (document s) \<Longrightarrow>
   getAllPageResources_body s = Inr (add_all (candidates (document s)) s)"
  by (simp add: getAllPageResources_body_def candidates_def predicate_candidates_def
      collect_links_calls collect_scripts_calls collect_images_calls collect_videos_calls
      collect_audios_calls collect_backgrounds_calls collect_frames_calls
      collect_objects_calls collect_fonts_calls)

lemma body_throws:
  assumes "\<not> rel_strings (document s)"
  shows "\<exists>s'. getAllPageResources_body s = Inl (TypeError, s') \<and> document s' = document s"
proof -
  from collect_links_throws [OF assms] obtain s'
    where "collect_links s = Inl (TypeError, s')" "document s' = document s" by blast
  then show ?thesis by (simp add: getAllPageResources_body_def)
qed

lemma document_final [simp]: "document (final_state (invoke d)) = d"
proof (cases "rel_strings d")
  case True
  then show ?thesis by (simp add: invoke_def final_state_def body_calls)
next
  case False
  then have "\<not> rel_strings (document \<lparr>document = d, resources = []\<rparr>)" by simp
  from body_throws [OF this] show ?thesis by (auto simp: invoke_def final_state_def)
qed

text \<open>A scan returns what its calls record, or throws at a link without a string \<open>rel\<close>.\<close>

lemma scan_outcome:
  "getAllPageResources d = (if rel_strings d then Inr (recorded d) else Inl TypeError)"
proof (cases "rel_strings d")
  case True
  then show ?thesis by (simp add: getAllPageResources_def invoke_def body_calls recorded_def)
next
  case False
  then have "\<not> rel_strings (document \<lparr>document = d, resources = []\<rparr>)" by simp
  from body_throws [OF this] False show ?thesis
    by (auto simp: getAllPageResources_def invoke_def)
qed

lemma scan_returns: "getAllPageResources d = Inr rs \<longleftrightarrow> rel_strings d \<and> rs = recorded d"
  by (auto simp: scan_outcome)

subsection \<open>What a sequence of calls does to the array\<close>

lemma list_ex_url: "list_ex (\<lambda>res. url res = u) rs \<longleftrightarrow> map_of (kinds rs) u \<noteq> None"
  by (induction rs) (auto simp: kinds_def)

lemma kinds_addResource:
  "map_of (kinds (resources (addResource u t s))) v =
     (case map_of (kinds (resources s)) v of
        Some k \<Rightarrow> Some k
      | None \<Rightarrow> if v = u \<and> truthy u then Some t else None)"
  by (auto simp: addResource_def list_ex_url push_def kinds_def map_add_def split: option.splits)

lemma kinds_add_all:
  "map_of (kinds (resources (add_all cs s))) v =
     (case map_of (kinds (resources s)) v of
        Some k \<Rightarrow> Some k
      | None \<Rightarrow> if truthy v then map_of cs v else None)"
proof (induction cs arbitrary: s)
  case Nil
  then show ?case by (simp split: option.split)
next
  case (Cons c cs)
  obtain u t where c: "c = (u, t)" by (cases c)
  show ?case
    by (simp add: c Cons.IH kinds_addResource split: option.split)
qed

lemma prefix_addResource: "prefix (resources s) (resources (addResource u t s))"
  by (simp add: addResource_def push_def)

lemma prefix_add_all: "prefix (resources s) (resources (add_all cs s))"
proof (induction cs arbitrary: s)
  case Nil
  then show ?case by simp
next
  case (Cons c cs)
  obtain u t where c: "c = (u, t)" by (cases c)
  have "prefix (resources s) (resources (addResource u t s))" by (rule prefix_addResource)
  also have "prefix \<dots> (resources (add_all cs (addResource u t s)))" by (rule Cons.IH)
  finally show ?case by (simp add: c)
qed

lemma distinct_addResource:
  "distinct (map url (resources s)) \<Longrightarrow> distinct (map url (resources (addResource u t s)))"
  by (auto simp: addResource_def push_def list_ex_iff)

lemma distinct_add_all:
  "distinct (map url (resources s)) \<Longrightarrow> distinct (map url (resources (add_all cs s)))"
proof (induction cs arbitrary: s)
  case Nil
  then show ?case by simp
next
  case (Cons c cs)
  then show ?case by (cases c) (simp add: distinct_addResource)
qed

lemma distinct_recorded: "distinct (map url (recorded d))"
  by (simp add: recorded_def distinct_add_all)

lemma truthy_addResource:
  "list_all (\<lambda>r. truthy (url r)) (resources s) \<Longrightarrow>
   list_all (\<lambda>r. truthy (url r)) (resources (addResource u t s))"
  by (simp add: addResource_def push_def)

lemma truthy_add_all:
  "list_all (\<lambda>r. truthy (url r)) (resources s) \<Longrightarrow>
   list_all (\<lambda>r. truthy (url r)) (resources (add_all cs s))"
proof (induction cs arbitrary: s)
  case Nil
  then show ?case by simp
next
  case (Cons c cs)
  then show ?case by (cases c) (simp add: truthy_addResource)
qed

lemma scenario_A_scan:
  "getAllPageResources scenario_A = Inr [\<lparr>url = Str ''a.css'', type = ''css''\<rparr>]"
  by code_simp


lemma scenario_media_candidates:
  "predicate_candidates scenario_media =
     [[], [], [(Str ''m.mp4'', ''image''), (Str ''m.mp4'', ''image'')],
      [(Str ''m.mp4'', ''video''), (Str ''p.png'', ''video_poster''), (Str ''m.mp4'', ''video'')],
      [(Str ''m.mp4'', ''audio'')], [], [], [(Str ''p.png'', ''object_data'')], []]"
  by code_simp

lemma scenario_media_scan:
  "getAllPageResources scenario_media =
     Inr [\<lparr>url = Str ''m.mp4'', type = ''image''\<rparr>,
          \<lparr>url = Str ''p.png'', type = ''video_poster''\<rparr>]"
  by code_simp


subsection \<open>The recorded type of a url is that of its first call\<close>

lemma map_of_concat_first:
  "i < length ls \<Longrightarrow> \<forall>cs\<in>set (take i ls). u \<notin> fst ` set cs \<Longrightarrow>
   map_of (concat ls) u =
     (case map_of (ls ! i) u of Some k \<Rightarrow> Some k | None \<Rightarrow> map_of (concat (drop (Suc i) ls)) u)"
proof (induction ls arbitrary: i)
  case Nil
  then show ?case by simp
next
  case (Cons l ls)
  show ?case
  proof (cases i)
    case 0
    then show ?thesis by (simp add: map_add_def split: option.split)
  next
    case (Suc j)
    with Cons.prems have "map_of l u = None"
      by (simp add: map_of_eq_None_iff)
    with Cons Suc show ?thesis by (simp add: map_add_def split: option.split)
  qed
qed

lemma kinds_Nil [simp]: "kinds [] = []"
  by (simp add: kinds_def)

lemma kinds_recorded:
  "map_of (kinds (recorded d)) u = (if truthy u then map_of (candidates d) u else None)"
  by (simp add: recorded_def kinds_add_all)

lemma kinds_member: "(u, k) \<in> set (kinds rs) \<longleftrightarrow> \<lparr>url = u, type = k\<rparr> \<in> set rs"
proof
  assume "(u, k) \<in> set (kinds rs)"
  then obtain r where r: "r \<in> set rs" "url r = u" "type r = k"
    by (auto simp: kinds_def)
  then have "r = \<lparr>url = u, type = k\<rparr>" by simp
  with r(1) show "\<lparr>url = u, type = k\<rparr> \<in> set rs" by simp
next
  assume "\<lparr>url = u, type = k\<rparr> \<in> set rs"
  then have "(\<lambda>r. (url r, type r)) \<lparr>url = u, type = k\<rparr> \<in> (\<lambda>r. (url r, type r)) ` set rs"
    by (rule imageI)
  then show "(u, k) \<in> set (kinds rs)" by (simp add: kinds_def)
qed

lemma map_fst_kinds: "map fst (kinds rs) = map url rs"
  by (simp add: kinds_def)

lemma recorded_kind_iff:
  "\<lparr>url = u, type = k\<rparr> \<in> set (recorded d) \<longleftrightarrow>
     truthy u \<and> map_of (candidates d) u = Some k"
proof -
  have "distinct (map fst (kinds (recorded d)))"
    by (simp add: map_fst_kinds distinct_recorded)
  then have "(u, k) \<in> set (kinds (recorded d)) \<longleftrightarrow>
      map_of (kinds (recorded d)) u = Some k"
    by simp
  then show ?thesis by (simp add: kinds_member kinds_recorded)
qed


lemma recorded_is_call:
  "r \<in> set (recorded d) \<Longrightarrow> (url r, type r) \<in> set (candidates d)"
proof -
  assume a: "r \<in> set (recorded d)"
  obtain u k where r: "r = \<lparr>url = u, type = k\<rparr>" by (cases r) simp
  from a have "map_of (candidates d) u = Some k" by (simp add: r recorded_kind_iff)
  then have "(u, k) \<in> set (candidates d)" by (rule map_of_SomeD)
  then show ?thesis by (simp add: r)
qed


subsection \<open>Unique urls, and the first predicate wins\<close>

text \<open>
  C1. The sequence a scan returns holds no two records with the same url. A call of
  \<^verbatim>\<open>addResource\<close> with a url that a record already has changes nothing (the later
  candidate is discarded), and any call leaves the records that are there as they are,
  in their places: the array before is a prefix of the array after, and so of the
  returned array, whatever calls follow. Every returned record is the url and the type
  of one call, as that call gave them.
\<close>

theorem C1_url_unique:
  "(getAllPageResources d = Inr rs \<longrightarrow> distinct (map url rs)) \<and>
   (list_ex (\<lambda>res. url res = u) (resources s) \<longrightarrow> addResource u t s = s) \<and>
   prefix (resources s) (resources (addResource u t s)) \<and>
   prefix (resources s) (resources (add_all calls s)) \<and>
   (getAllPageResources d = Inr rs \<longrightarrow> (\<forall>r\<in>set rs. (url r, type r) \<in> set (candidates d)))"
proof (intro conjI impI ballI)
  show "distinct (map url rs)" if "getAllPageResources d = Inr rs"
    using that by (simp add: scan_returns distinct_recorded)
  show "addResource u t s = s" if "list_ex (\<lambda>res. url res = u) (resources s)"
    using that by (simp add: addResource_def)
  show "prefix (resources s) (resources (addResource u t s))" by (rule prefix_addResource)
  show "prefix (resources s) (resources (add_all calls s))" by (rule prefix_add_all)
  show "(url r, type r) \<in> set (candidates d)"
    if "getAllPageResources d = Inr rs" "r \<in> set rs" for r
    using that by (simp add: scan_returns recorded_is_call)
qed

theorem C1_url_unique_witness:
  "getAllPageResources scenario_A = Inr [\<lparr>url = Str ''a.css'', type = ''css''\<rparr>] \<and>
   list_ex (\<lambda>res. url res = Str ''a.css'')
     (resources \<lparr>document = scenario_A, resources = [\<lparr>url = Str ''a.css'', type = ''css''\<rparr>]\<rparr>) \<and>
   addResource (Str ''a.css'') ''image''
     \<lparr>document = scenario_A, resources = [\<lparr>url = Str ''a.css'', type = ''css''\<rparr>]\<rparr> =
     \<lparr>document = scenario_A, resources = [\<lparr>url = Str ''a.css'', type = ''css''\<rparr>]\<rparr> \<and>
   distinct (map url [\<lparr>url = Str ''a.css'', type = ''css''\<rparr>]) \<and>
   (Str ''a.css'', ''css'') \<in> set (candidates scenario_A)"
proof -
  let ?rs = "[\<lparr>url = Str ''a.css'', type = ''css''\<rparr>]"
  let ?s = "\<lparr>document = scenario_A, resources = ?rs\<rparr>"
  have h: "list_ex (\<lambda>res. url res = Str ''a.css'') (resources ?s)" by simp
  note T = C1_url_unique [of scenario_A ?rs "Str ''a.css''" ?s "''image''"]
  from T h have 1: "addResource (Str ''a.css'') ''image'' ?s = ?s" by blast
  from T scenario_A_scan have 2: "distinct (map url ?rs)" by blast
  from T scenario_A_scan have "\<forall>r\<in>set ?rs. (url r, type r) \<in> set (candidates scenario_A)"
    by blast
  then have 3: "(Str ''a.css'', ''css'') \<in> set (candidates scenario_A)" by simp
  from scenario_A_scan h 1 2 3 show ?thesis by blast
qed

text \<open>
  C2. The nine predicates run in the fixed order links, scripts, images, video, audio, css
  backgrounds, iframes and embeds, objects, fonts (\<open>predicate_candidates\<close> lists their
  calls in that order). When predicate \<open>i\<close> is the first that produces the url \<open>u\<close>,
  and its first call for \<open>u\<close> has type \<open>k\<close>, the scan returns the record of \<open>u\<close>
  with type \<open>k\<close>, and no record of \<open>u\<close> with another type, whatever later
  predicates produce for \<open>u\<close>.
\<close>

theorem C2_earliest_wins:
  assumes "getAllPageResources d = Inr rs"
    and "truthy u" and "i < length (predicate_candidates d)"
    and "map_of (predicate_candidates d ! i) u = Some k"
    and "\<forall>cs\<in>set (take i (predicate_candidates d)). u \<notin> fst ` set cs"
  shows "\<lparr>url = u, type = k\<rparr> \<in> set rs \<and> (\<forall>r\<in>set rs. url r = u \<longrightarrow> type r = k)"
proof -
  from assms(1) have rs: "rs = recorded d" by (simp add: scan_returns)
  have c: "map_of (candidates d) u = Some k"
    using assms(3-5) by (simp add: candidates_def map_of_concat_first)
  then have m: "\<lparr>url = u, type = k\<rparr> \<in> set rs"
    using assms(2) by (simp add: rs recorded_kind_iff)
  have "type r = k" if "r \<in> set rs" "url r = u" for r
  proof -
    have "r = \<lparr>url = u, type = type r\<rparr>" using that(2) by simp
    with that(1) have "\<lparr>url = u, type = type r\<rparr> \<in> set (recorded d)" by (simp add: rs)
    then show ?thesis using c by (simp add: recorded_kind_iff)
  qed
  with m show ?thesis by blast
qed

theorem C2_earliest_wins_witness:
  "map_of (predicate_candidates scenario_media ! 3) (Str ''p.png'') = Some ''video_poster'' \<and>
   map_of (predicate_candidates scenario_media ! 7) (Str ''p.png'') = Some ''object_data'' \<and>
   getAllPageResources scenario_media =
     Inr [\<lparr>url = Str ''m.mp4'', type = ''image''\<rparr>,
          \<lparr>url = Str ''p.png'', type = ''video_poster''\<rparr>] \<and>
   \<lparr>url = Str ''p.png'', type = ''video_poster''\<rparr> \<in>
     set [\<lparr>url = Str ''m.mp4'', type = ''image''\<rparr>, \<lparr>url = Str ''p.png'', type = ''video_poster''\<rparr>] \<and>
   \<lparr>url = Str ''p.png'', type = ''object_data''\<rparr> \<notin>
     set [\<lparr>url = Str ''m.mp4'', type = ''image''\<rparr>, \<lparr>url = Str ''p.png'', type = ''video_poster''\<rparr>]"
proof -
  have h1: "truthy (Str ''p.png'')" by simp
  have h2: "3 < length (predicate_candidates scenario_media)"
    by (simp add: scenario_media_candidates)
  have h3: "map_of (predicate_candidates scenario_media ! 3) (Str ''p.png'') = Some ''video_poster''"
    by (simp add: scenario_media_candidates)
  have h4: "\<forall>cs\<in>set (take 3 (predicate_candidates scenario_media)). Str ''p.png'' \<notin> fst ` set cs"
    by (simp add: scenario_media_candidates)
  have h5: "map_of (predicate_candidates scenario_media ! 7) (Str ''p.png'') = Some ''object_data''"
    by (simp add: scenario_media_candidates)
  have h6: "\<lparr>url = Str ''p.png'', type = ''object_data''\<rparr> \<notin>
      set [\<lparr>url = Str ''m.mp4'', type = ''image''\<rparr>, \<lparr>url = Str ''p.png'', type = ''video_poster''\<rparr>]"
    by simp
  from C2_earliest_wins [OF scenario_media_scan h1 h2 h3 h4] h3 h5 h6 scenario_media_scan
  show ?thesis by blast
qed


subsection \<open>Style sheets the platform denies\<close>

lemma querySelectorAll_styleSheets [simp]:
  "querySelectorAll (d\<lparr>styleSheets := x\<rparr>) sel = querySelectorAll d sel"
  by (simp add: querySelectorAll_def all_elements_def)

lemma rel_strings_styleSheets [simp]: "rel_strings (d\<lparr>styleSheets := x\<rparr>) = rel_strings d"
  by (simp add: rel_strings_def)

lemma sheet_calls_accessible:
  "concat (map sheet_calls (filter (\<lambda>sh. \<not> access_denied sh) sheets)) = concat (map sheet_calls sheets)"
  by (induction sheets) (simp_all add: sheet_calls_def)

lemma element_candidates_styleSheets:
  "take 8 (predicate_candidates (d\<lparr>styleSheets := x\<rparr>)) = take 8 (predicate_candidates d)"
  by (simp add: predicate_candidates_def link_candidates_def script_candidates_def
      image_candidates_def video_candidates_def audio_candidates_def background_candidates_def
      frame_candidates_def object_candidates_def)

lemma candidates_split:
  "candidates d = concat (take 8 (predicate_candidates d)) @ font_candidates d"
  by (simp add: candidates_def predicate_candidates_def)

lemma font_candidates_accessible:
  "font_candidates (d\<lparr>styleSheets := filter (\<lambda>sh. \<not> access_denied sh) (styleSheets d)\<rparr>) =
     font_candidates d"
  by (simp add: font_candidates_def sheet_calls_accessible)

lemma candidates_accessible:
  "candidates (d\<lparr>styleSheets := filter (\<lambda>sh. \<not> access_denied sh) (styleSheets d)\<rparr>) =
     candidates d"
  by (simp only: candidates_split element_candidates_styleSheets font_candidates_accessible)

lemma resources_addResource_cong:
  "resources s = resources s' \<Longrightarrow> resources (addResource u t s) = resources (addResource u t s')"
  by (simp add: addResource_def)

lemma add_all_resources_cong:
  "resources s = resources s' \<Longrightarrow> resources (add_all cs s) = resources (add_all cs s')"
proof (induction cs arbitrary: s s')
  case Nil
  then show ?case by simp
next
  case (Cons c cs)
  obtain u t where c: "c = (u, t)" by (cases c)
  from Cons.prems have "resources (addResource u t s) = resources (addResource u t s')"
    by (rule resources_addResource_cong)
  then have "resources (add_all cs (addResource u t s)) = resources (add_all cs (addResource u t s'))"
    by (rule Cons.IH)
  then show ?case by (simp add: c)
qed

lemma recorded_of_candidates:
  "candidates d' = candidates d \<Longrightarrow> recorded d' = recorded d"
proof -
  assume "candidates d' = candidates d"
  moreover have "resources (add_all (candidates d) \<lparr>document = d', resources = []\<rparr>) =
      resources (add_all (candidates d) \<lparr>document = d, resources = []\<rparr>)"
    by (rule add_all_resources_cong) simp
  ultimately show ?thesis by (simp only: recorded_def)
qed

lemma scan_accessible:
  "getAllPageResources (d\<lparr>styleSheets := filter (\<lambda>sh. \<not> access_denied sh) (styleSheets d)\<rparr>) =
     getAllPageResources d"
  by (simp add: scan_outcome recorded_of_candidates [OF candidates_accessible])

lemma recorded_without_sheets: "prefix (recorded (d\<lparr>styleSheets := []\<rparr>)) (recorded d)"
proof -
  let ?d0 = "d\<lparr>styleSheets := []\<rparr>"
  let ?cs = "concat (take 8 (predicate_candidates d))"
  have "font_candidates ?d0 = []" by (simp add: font_candidates_def)
  then have "candidates ?d0 = ?cs"
    by (simp only: candidates_split element_candidates_styleSheets) simp
  then have "recorded ?d0 = resources (add_all ?cs \<lparr>document = ?d0, resources = []\<rparr>)"
    by (simp only: recorded_def)
  also have "\<dots> = resources (add_all ?cs \<lparr>document = d, resources = []\<rparr>)"
    by (rule add_all_resources_cong) simp
  finally have 1: "recorded ?d0 = resources (add_all ?cs \<lparr>document = d, resources = []\<rparr>)" .
  have 2: "recorded d =
      resources (add_all (font_candidates d) (add_all ?cs \<lparr>document = d, resources = []\<rparr>))"
    by (simp only: recorded_def candidates_split add_all_append)
  show ?thesis by (simp only: 1 2 prefix_add_all)
qed

lemma scenario_C_scan:
  "getAllPageResources scenario_C = Inr [\<lparr>url = Str ''b.woff'', type = ''font''\<rparr>]"
  by code_simp

lemma font_src_match: "url_match font_src = Some ''b.woff''"
  by code_simp





subsection \<open>The types a scan records\<close>

lemma scenario_links_scan:
  "getAllPageResources scenario_links =
     Inr [\<lparr>url = Str ''a.css'', type = ''css''\<rparr>, \<lparr>url = Str ''favicon.ico'', type = ''link''\<rparr>]"
  by code_simp

lemma scenario_links_links:
  "querySelectorAll scenario_links sel_links = [stylesheet_link, bare_link]"
  by code_simp

text \<open>
  C4, as the specification states it, fails: the record of a stylesheet link has type
  \<^verbatim>\<open>css\<close>, not \<^verbatim>\<open>stylesheet\<close>, and the record of a link with an empty relation has
  type \<^verbatim>\<open>link\<close>; neither is a kind of the specification's table nor the link's
  relation string.
\<close>

theorem C4_counterexample:
  "getAllPageResources scenario_links =
     Inr [\<lparr>url = Str ''a.css'', type = ''css''\<rparr>, \<lparr>url = Str ''favicon.ico'', type = ''link''\<rparr>] \<and>
   \<not> spec_kind scenario_links \<lparr>url = Str ''a.css'', type = ''css''\<rparr> \<and>
   \<lparr>url = Str ''a.css'', type = ''stylesheet''\<rparr> \<notin>
     set [\<lparr>url = Str ''a.css'', type = ''css''\<rparr>, \<lparr>url = Str ''favicon.ico'', type = ''link''\<rparr>] \<and>
   \<not> spec_kind scenario_links \<lparr>url = Str ''favicon.ico'', type = ''link''\<rparr>"
  by (simp add: scenario_links_scan spec_kind_def spec_kinds_def scenario_links_links
      stylesheet_link_def bare_link_def blank_def)

lemma css_url_calls_type: "(u, k) \<in> set (css_url_calls t v) \<Longrightarrow> k = t"
  by (auto simp: css_url_calls_def split: option.splits if_splits)

lemma link_type_cases:
  "link_type link = Inr k \<longleftrightarrow>
     (\<exists>r. rel link = Str r \<and>
        k = (if js_includes r ''stylesheet'' then ''css'' else if r = [] then ''link'' else r))"
  by (cases "rel link") (auto simp: link_type_def)

lemma link_candidates_type:
  "(u, k) \<in> set (link_candidates d) \<Longrightarrow>
   \<exists>link\<in>set (querySelectorAll d sel_links). u = href link \<and> link_type link = Inr k"
  by (auto simp: link_candidates_def link_calls_def split: sum.splits)

lemma other_candidates_type:
  "(u, k) \<in> set (script_candidates d) \<Longrightarrow> k = ''js''"
  "(u, k) \<in> set (image_candidates d) \<Longrightarrow> k = ''image''"
  "(u, k) \<in> set (video_candidates d) \<Longrightarrow> k = ''video'' \<or> k = ''video_poster''"
  "(u, k) \<in> set (audio_candidates d) \<Longrightarrow> k = ''audio''"
  "(u, k) \<in> set (background_candidates d) \<Longrightarrow> k = ''css_background_image''"
  "(u, k) \<in> set (frame_candidates d) \<Longrightarrow> k = ''embedded_content''"
  "(u, k) \<in> set (object_candidates d) \<Longrightarrow> k = ''object_data''"
  "(u, k) \<in> set (font_candidates d) \<Longrightarrow> k = ''font''"
  by (auto simp: script_candidates_def image_candidates_def video_candidates_def video_calls_def
      audio_candidates_def background_candidates_def frame_candidates_def object_candidates_def
      font_candidates_def sheet_calls_def rule_calls_def
      dest: css_url_calls_type split: if_splits css_rule.splits option.splits)

lemma candidates_cases:
  "(u, k) \<in> set (candidates d) \<Longrightarrow>
   (u, k) \<in> set (link_candidates d) \<or> (u, k) \<in> set (script_candidates d) \<or>
   (u, k) \<in> set (image_candidates d) \<or> (u, k) \<in> set (video_candidates d) \<or>
   (u, k) \<in> set (audio_candidates d) \<or> (u, k) \<in> set (background_candidates d) \<or>
   (u, k) \<in> set (frame_candidates d) \<or> (u, k) \<in> set (object_candidates d) \<or>
   (u, k) \<in> set (font_candidates d)"
  by (auto simp: candidates_def predicate_candidates_def)

lemma candidate_type:
  assumes "(u, k) \<in> set (candidates d)"
  shows "k \<in> set code_kinds \<or>
     (\<exists>link\<in>set (querySelectorAll d sel_links). u = href link \<and>
        (\<exists>r. rel link = Str r \<and> \<not> js_includes r ''stylesheet'' \<and>
             k = (if r = [] then ''link'' else r)))"
proof -
  have "(u, k) \<in> set (link_candidates d) \<or> k \<in> set (tl code_kinds)"
    using candidates_cases [OF assms]
  proof (elim disjE)
    assume "(u, k) \<in> set (link_candidates d)"
    then show ?thesis by simp
  next
    assume "(u, k) \<in> set (script_candidates d)"
    then have "k = ''js''" by (rule other_candidates_type)
    then show ?thesis by (simp add: code_kinds_def)
  next
    assume "(u, k) \<in> set (image_candidates d)"
    then have "k = ''image''" by (rule other_candidates_type)
    then show ?thesis by (simp add: code_kinds_def)
  next
    assume "(u, k) \<in> set (video_candidates d)"
    then have "k = ''video'' \<or> k = ''video_poster''" by (rule other_candidates_type)
    then show ?thesis by (auto simp: code_kinds_def)
  next
    assume "(u, k) \<in> set (audio_candidates d)"
    then have "k = ''audio''" by (rule other_candidates_type)
    then show ?thesis by (simp add: code_kinds_def)
  next
    assume "(u, k) \<in> set (background_candidates d)"
    then have "k = ''css_background_image''" by (rule other_candidates_type)
    then show ?thesis by (simp add: code_kinds_def)
  next
    assume "(u, k) \<in> set (frame_candidates d)"
    then have "k = ''embedded_content''" by (rule other_candidates_type)
    then show ?thesis by (simp add: code_kinds_def)
  next
    assume "(u, k) \<in> set (object_candidates d)"
    then have "k = ''object_data''" by (rule other_candidates_type)
    then show ?thesis by (simp add: code_kinds_def)
  next
    assume "(u, k) \<in> set (font_candidates d)"
    then have "k = ''font''" by (rule other_candidates_type)
    then show ?thesis by (simp add: code_kinds_def)
  qed
  then consider "(u, k) \<in> set (link_candidates d)" | "k \<in> set (tl code_kinds)"
    by blast
  then show ?thesis
  proof cases
    case 1
    then obtain link where l: "link \<in> set (querySelectorAll d sel_links)" "u = href link"
      "link_type link = Inr k"
      by (auto dest: link_candidates_type)
    then obtain r where r: "rel link = Str r"
      "k = (if js_includes r ''stylesheet'' then ''css'' else if r = [] then ''link'' else r)"
      by (auto simp: link_type_cases)
    show ?thesis
    proof (cases "js_includes r ''stylesheet''")
      case True
      with r have "k = ''css''" by simp
      then show ?thesis by (simp add: code_kinds_def)
    next
      case False
      with l r show ?thesis by auto
    qed
  next
    case 2
    then show ?thesis by (auto simp: code_kinds_def)
  qed
qed

lemma map_of_links_css:
  "find (\<lambda>l. href l = u) ls = Some link \<Longrightarrow> rel link = Str r \<Longrightarrow>
   js_includes r ''stylesheet'' \<Longrightarrow>
   map_of (concat (map link_calls ls)) u = Some ''css''"
proof (induction ls)
  case Nil
  then show ?case by simp
next
  case (Cons l ls)
  show ?case
  proof (cases "href l = u")
    case True
    with Cons.prems have "l = link" by simp
    with Cons.prems True show ?thesis
      by (simp add: link_calls_def link_type_def)
  next
    case False
    with Cons have "map_of (concat (map link_calls ls)) u = Some ''css''" by simp
    moreover from False have "map_of (link_calls l) u = None"
      by (simp add: link_calls_def split: sum.split)
    ultimately show ?thesis by (simp add: map_add_def)
  qed
qed

text \<open>
  C4, amended. The type of every record a scan returns is one of the ten literals of the
  source (\<^verbatim>\<open>css\<close>, \<^verbatim>\<open>js\<close>, \<^verbatim>\<open>image\<close>, \<^verbatim>\<open>video\<close>, \<^verbatim>\<open>video_poster\<close>,
  \<^verbatim>\<open>audio\<close>, \<^verbatim>\<open>css_background_image\<close>, \<^verbatim>\<open>embedded_content\<close>, \<^verbatim>\<open>object_data\<close>,
  \<^verbatim>\<open>font\<close>), or it comes from a link with the record's url whose relation does not
  contain \<^verbatim>\<open>stylesheet\<close> and is that relation string, or \<^verbatim>\<open>link\<close> when the
  relation is empty. A non-empty address whose first link has a relation that contains
  \<^verbatim>\<open>stylesheet\<close> is recorded with type \<^verbatim>\<open>css\<close>.
\<close>

theorem C4_kinds_amended:
  "(getAllPageResources d = Inr rs \<longrightarrow>
     (\<forall>r\<in>set rs.
        type r \<in> set code_kinds \<or>
        (\<exists>link\<in>set (querySelectorAll d sel_links). url r = href link \<and>
           (\<exists>rl. rel link = Str rl \<and> \<not> js_includes rl ''stylesheet'' \<and>
                 type r = (if rl = [] then ''link'' else rl))))) \<and>
   (getAllPageResources d = Inr rs \<and> truthy u \<and>
    find (\<lambda>l. href l = u) (querySelectorAll d sel_links) = Some link \<and>
    rel link = Str rl \<and> js_includes rl ''stylesheet''
    \<longrightarrow> \<lparr>url = u, type = ''css''\<rparr> \<in> set rs)"
proof (intro conjI ballI impI)
  fix r assume "getAllPageResources d = Inr rs" "r \<in> set rs"
  then have "(url r, type r) \<in> set (candidates d)" by (simp add: scan_returns recorded_is_call)
  then show "type r \<in> set code_kinds \<or>
      (\<exists>link\<in>set (querySelectorAll d sel_links). url r = href link \<and>
         (\<exists>rl. rel link = Str rl \<and> \<not> js_includes rl ''stylesheet'' \<and>
               type r = (if rl = [] then ''link'' else rl)))"
    by (rule candidate_type)
next
  assume a: "getAllPageResources d = Inr rs \<and> truthy u \<and>
    find (\<lambda>l. href l = u) (querySelectorAll d sel_links) = Some link \<and>
    rel link = Str rl \<and> js_includes rl ''stylesheet''"
  then have "map_of (link_candidates d) u = Some ''css''"
    by (simp add: link_candidates_def map_of_links_css)
  then have "map_of (candidates d) u = Some ''css''"
    by (simp add: candidates_def predicate_candidates_def map_add_def)
  with a show "\<lparr>url = u, type = ''css''\<rparr> \<in> set rs"
    by (simp add: scan_returns recorded_kind_iff)
qed

theorem C4_kinds_amended_witness:
  "getAllPageResources scenario_links =
     Inr [\<lparr>url = Str ''a.css'', type = ''css''\<rparr>, \<lparr>url = Str ''favicon.ico'', type = ''link''\<rparr>] \<and>
   find (\<lambda>l. href l = Str ''a.css'') (querySelectorAll scenario_links sel_links) =
     Some stylesheet_link \<and>
   rel stylesheet_link = Str ''stylesheet'' \<and> js_includes ''stylesheet'' ''stylesheet'' \<and>
   rel bare_link = Str [] \<and>
   \<lparr>url = Str ''a.css'', type = ''css''\<rparr> \<in>
     set [\<lparr>url = Str ''a.css'', type = ''css''\<rparr>, \<lparr>url = Str ''favicon.ico'', type = ''link''\<rparr>]"
proof -
  let ?rs = "[\<lparr>url = Str ''a.css'', type = ''css''\<rparr>, \<lparr>url = Str ''favicon.ico'', type = ''link''\<rparr>]"
  have f: "find (\<lambda>l. href l = Str ''a.css'') (querySelectorAll scenario_links sel_links) =
      Some stylesheet_link"
    by (simp add: scenario_links_links) (simp add: stylesheet_link_def blank_def)
  have r: "rel stylesheet_link = Str ''stylesheet''" by (simp add: stylesheet_link_def blank_def)
  have i: "js_includes ''stylesheet'' ''stylesheet''" by simp
  have b: "rel bare_link = Str []" by (simp add: bare_link_def blank_def)
  have t: "truthy (Str ''a.css'')" by simp
  from C4_kinds_amended [of scenario_links ?rs "Str ''a.css''" stylesheet_link "''stylesheet''"]
    scenario_links_scan t f r i
  have "\<lparr>url = Str ''a.css'', type = ''css''\<rparr> \<in> set ?rs" by blast
  with scenario_links_scan f r i b show ?thesis by blast
qed


subsection \<open>A scan reads the document and does not change it\<close>

lemma sheet_calls_cssRules:
  "sheet_calls sheet =
     (case cssRules sheet of
        Inl e \<Rightarrow> []
      | Inr rs \<Rightarrow> concat (map rule_calls (case rs of None \<Rightarrow> [] | Some l \<Rightarrow> l)))"
  by (simp add: sheet_calls_def cssRules_def)

lemma font_candidates_cssRules:
  "font_candidates d =
     concat (map (\<lambda>x. case x of Inl e \<Rightarrow> []
                        | Inr rs \<Rightarrow> concat (map rule_calls (case rs of None \<Rightarrow> [] | Some l \<Rightarrow> l)))
               (map cssRules (styleSheets d)))"
proof -
  have "map sheet_calls (styleSheets d) =
      map (\<lambda>sheet. case cssRules sheet of Inl e \<Rightarrow> []
             | Inr rs \<Rightarrow> concat (map rule_calls (case rs of None \<Rightarrow> [] | Some l \<Rightarrow> l)))
        (styleSheets d)"
    by (rule map_cong [OF refl]) (rule sheet_calls_cssRules)
  then show ?thesis by (simp only: font_candidates_def map_map comp_def)
qed

lemma candidates_observations:
  assumes "observations d = observations d'"
  shows "candidates d = candidates d'"
proof -
  from assms have q: "querySelectorAll d sel_links = querySelectorAll d' sel_links"
    "querySelectorAll d sel_scripts = querySelectorAll d' sel_scripts"
    "querySelectorAll d sel_images = querySelectorAll d' sel_images"
    "querySelectorAll d sel_videos = querySelectorAll d' sel_videos"
    "querySelectorAll d sel_audios = querySelectorAll d' sel_audios"
    "querySelectorAll d sel_all = querySelectorAll d' sel_all"
    "querySelectorAll d sel_frames = querySelectorAll d' sel_frames"
    "querySelectorAll d sel_objects = querySelectorAll d' sel_objects"
    and s: "map cssRules (styleSheets d) = map cssRules (styleSheets d')"
    by (simp_all add: observations_def)
  from s have "font_candidates d = font_candidates d'"
    by (simp only: font_candidates_cssRules)
  with q show ?thesis
    by (simp add: candidates_def predicate_candidates_def link_candidates_def
        script_candidates_def image_candidates_def video_candidates_def audio_candidates_def
        background_candidates_def frame_candidates_def object_candidates_def)
qed

lemma scan_observations:
  assumes "observations d' = observations d"
  shows "getAllPageResources d' = getAllPageResources d"
proof -
  from assms have "candidates d' = candidates d" by (rule candidates_observations)
  then have "recorded d' = recorded d" by (rule recorded_of_candidates)
  moreover from assms have "rel_strings d' = rel_strings d"
    by (simp add: observations_def rel_strings_def)
  ultimately show ?thesis by (simp add: scan_outcome)
qed

text \<open>
  C7. A call leaves the document as it found it, whether it returns or throws, so a
  second call runs on the same document, from an empty array again, and has the same
  outcome: the same sequence. The outcome depends on the document only through what the
  scan observes of it: two documents with the same observations give the same sequence.
\<close>

theorem C7_scan_repeatable:
  "document (final_state (invoke d)) = d \<and>
   getAllPageResources (document (final_state (invoke d))) = getAllPageResources d \<and>
   (observations d' = observations d \<longrightarrow> getAllPageResources d' = getAllPageResources d)"
proof (intro conjI impI)
  show "document (final_state (invoke d)) = d" by simp
  then show "getAllPageResources (document (final_state (invoke d))) = getAllPageResources d"
    by simp
  assume "observations d' = observations d"
  then show "getAllPageResources d' = getAllPageResources d" by (rule scan_observations)
qed

lemma scenario_C_hidden_observations: "observations scenario_C_hidden = observations scenario_C"
  by (simp add: observations_def scenario_C_hidden_def querySelectorAll_def all_elements_def
      scenario_C_def cssRules_def cross_origin_sheet_def)

theorem C7_scan_repeatable_witness:
  "scenario_C_hidden \<noteq> scenario_C \<and>
   observations scenario_C_hidden = observations scenario_C \<and>
   getAllPageResources scenario_C_hidden = getAllPageResources scenario_C \<and>
   getAllPageResources (document (final_state (invoke scenario_C))) =
     Inr [\<lparr>url = Str ''b.woff'', type = ''font''\<rparr>]"
proof -
  have 1: "scenario_C_hidden \<noteq> scenario_C"
    by (simp add: scenario_C_hidden_def scenario_C_def cross_origin_sheet_def)
  note T = C7_scan_repeatable [of scenario_C scenario_C_hidden]
  from T scenario_C_hidden_observations
  have 2: "getAllPageResources scenario_C_hidden = getAllPageResources scenario_C" by blast
  from T have "getAllPageResources (document (final_state (invoke scenario_C))) =
      getAllPageResources scenario_C"
    by blast
  then have 3: "getAllPageResources (document (final_state (invoke scenario_C))) =
      Inr [\<lparr>url = Str ''b.woff'', type = ''font''\<rparr>]"
    by (simp only: scenario_C_scan)
  from 1 2 3 scenario_C_hidden_observations show ?thesis by blast
qed


subsection \<open>Empty and missing addresses\<close>

lemma addResource_falsy: "\<not> truthy u \<Longrightarrow> addResource u t s = s"
  by (simp add: addResource_def)

lemma add_all_filter_truthy:
  "add_all (filter (\<lambda>c. truthy (fst c)) cs) s = add_all cs s"
proof (induction cs arbitrary: s)
  case Nil
  then show ?case by simp
next
  case (Cons c cs)
  obtain u t where c: "c = (u, t)" by (cases c)
  show ?case by (simp add: c Cons.IH addResource_falsy)
qed

lemma truthy_recorded: "list_all (\<lambda>r. truthy (url r)) (recorded d)"
  by (simp add: recorded_def truthy_add_all)

text \<open>
  What holds of empty and missing addresses: \<^verbatim>\<open>addResource\<close> returns the state as it
  is for an address that is not truthy; so do the callbacks of the background and font
  predicates when the expression does not match or its group is empty, and the video
  callback when neither address is truthy; a scan that returns holds only records with
  a truthy url, those its calls with a truthy address alone make.
\<close>

lemma empty_address_skipped:
  "(\<not> truthy u \<longrightarrow> addResource u t s = s) \<and>
   addResource Undefined t s = s \<and> addResource (Str []) t s = s \<and>
   (url_match (backgroundImage element) = None \<or> url_match (backgroundImage element) = Some []
      \<longrightarrow> background_callback element s = s) \<and>
   (url_match style_src = None \<or> url_match style_src = Some []
      \<longrightarrow> rule_callback (CSSFontFaceRule style_src) s = s) \<and>
   (\<not> truthy (src video) \<and> \<not> truthy (poster video) \<longrightarrow> video_callback video s = s) \<and>
   (getAllPageResources d = Inr rs \<longrightarrow>
      list_all (\<lambda>r. truthy (url r)) rs \<and>
      rs = resources (add_all (filter (\<lambda>c. truthy (fst c)) (candidates d))
             \<lparr>document = d, resources = []\<rparr>))"
proof (intro conjI impI)
  show "addResource u t s = s" if "\<not> truthy u" using that by (rule addResource_falsy)
  show "addResource Undefined t s = s" "addResource (Str []) t s = s"
    by (simp_all add: addResource_falsy)
  show "background_callback element s = s"
    if "url_match (backgroundImage element) = None \<or> url_match (backgroundImage element) = Some []"
    using that by (auto simp: background_callback_def)
  show "rule_callback (CSSFontFaceRule style_src) s = s"
    if "url_match style_src = None \<or> url_match style_src = Some []"
    using that by (auto simp: rule_callback_def)
  show "video_callback video s = s" if "\<not> truthy (src video) \<and> \<not> truthy (poster video)"
    using that by (simp add: video_callback_def)
  show "list_all (\<lambda>r. truthy (url r)) rs" if "getAllPageResources d = Inr rs"
    using that by (simp add: scan_returns truthy_recorded)
  show "rs = resources (add_all (filter (\<lambda>c. truthy (fst c)) (candidates d))
             \<lparr>document = d, resources = []\<rparr>)" if "getAllPageResources d = Inr rs"
    using that by (simp only: add_all_filter_truthy scan_returns recorded_def)
qed

lemma scenario_empty_scan: "getAllPageResources scenario_empty = Inr []"
  by code_simp

text \<open>
  C9 does not hold of the code. The \<^verbatim>\<open>link\<close> element of the SVG namespace is selected
  by \<^verbatim>\<open>link[href]\<close> and its address is missing (\<^verbatim>\<open>href\<close> is undefined), so the
  specification has it silently excluded; the scan throws \<^verbatim>\<open>TypeError\<close> instead, at line 12, where
  \<^verbatim>\<open>link.rel.includes\<close> is evaluated before \<^verbatim>\<open>addResource\<close> can test the address.
\<close>

theorem C9_missing_address_throws:
  "querySelectorAll scenario_svg_link sel_links = [svg_link] \<and>
   href svg_link = Undefined \<and> \<not> truthy (href svg_link) \<and> rel svg_link = Undefined \<and>
   link_type svg_link = Inl TypeError \<and>
   getAllPageResources scenario_svg_link = Inl TypeError"
proof -
  have "querySelectorAll scenario_svg_link sel_links = [svg_link]" by code_simp
  moreover have "getAllPageResources scenario_svg_link = Inl TypeError" by code_simp
  moreover have "link_type svg_link = Inl TypeError"
    by (simp add: link_type_def svg_link_def blank_def)
  ultimately show ?thesis by (simp add: svg_link_def blank_def)
qed


subsection \<open>Source elements\<close>

lemma source_in_images:
  assumes "(ancestors, e) \<in> set (all_elements d)" "localName e = ''source''" "''src'' \<in> set (attributes e)"
  shows "e \<in> set (querySelectorAll d sel_images)"
proof -
  have "list_ex (\<lambda>c. matches c ancestors e) sel_images"
    using assms(2,3) by (simp add: sel_images_def)
  with assms(1) have "(ancestors, e) \<in> set (filter (\<lambda>(ancestors, e). list_ex (\<lambda>c. matches c ancestors e) sel_images) (all_elements d))"
    by simp
  then have "snd (ancestors, e) \<in> snd ` set (filter (\<lambda>(ancestors, e). list_ex (\<lambda>c. matches c ancestors e) sel_images) (all_elements d))"
    by (rule imageI)
  then show ?thesis by (simp add: querySelectorAll_def)
qed

lemma audios_subset_images:
  "set (querySelectorAll d sel_audios) \<subseteq> set (querySelectorAll d sel_images)"
  by (auto simp: querySelectorAll_def sel_audios_def sel_images_def)

lemma video_sources_subset_images:
  "e \<in> set (querySelectorAll d sel_videos) \<Longrightarrow> localName e = ''source'' \<Longrightarrow>
   e \<in> set (querySelectorAll d sel_images)"
  by (auto simp: querySelectorAll_def sel_videos_def sel_images_def)

lemma map_of_const_type:
  "x \<in> set xs \<Longrightarrow> map_of (map (\<lambda>x. (f x, k)) xs) (f x) = Some k"
  by (induction xs) auto

lemma link_candidates_keys:
  "fst ` set (link_candidates d) \<subseteq> href ` set (querySelectorAll d sel_links)"
  by (auto simp: link_candidates_def link_calls_def split: sum.splits)

text \<open>
  C10. Take a \<^verbatim>\<open>source\<close> element of the document with a \<^verbatim>\<open>src\<close> attribute, anywhere
  in the tree, whose \<^verbatim>\<open>src\<close> property is truthy and is not the address of a link or of
  a script the first two predicates select. The scan records that address with type
  \<^verbatim>\<open>image\<close>, and with no other type (not \<^verbatim>\<open>video\<close>, not \<^verbatim>\<open>audio\<close>): every
  element the audio selector matches, and every \<^verbatim>\<open>source\<close> the video selector
  matches, is matched by the image selector, which runs before.
\<close>

theorem C10_source_recorded_as_image:
  assumes "getAllPageResources d = Inr rs"
    and "(ancestors, e) \<in> set (all_elements d)"
    and "localName e = ''source''" and "''src'' \<in> set (attributes e)" and "truthy (src e)"
    and "src e \<notin> href ` set (querySelectorAll d sel_links)"
    and "src e \<notin> src ` set (querySelectorAll d sel_scripts)"
  shows "\<lparr>url = src e, type = ''image''\<rparr> \<in> set rs \<and>
         \<lparr>url = src e, type = ''video''\<rparr> \<notin> set rs \<and>
         \<lparr>url = src e, type = ''audio''\<rparr> \<notin> set rs \<and>
         (\<forall>r\<in>set rs. url r = src e \<longrightarrow> type r = ''image'') \<and>
         set (querySelectorAll d sel_audios) \<subseteq> set (querySelectorAll d sel_images) \<and>
         (\<forall>v\<in>set (querySelectorAll d sel_videos). localName v = ''source'' \<longrightarrow>
             v \<in> set (querySelectorAll d sel_images))"
proof -
  from assms(1) have rs: "rs = recorded d" by (simp add: scan_returns)
  have img: "e \<in> set (querySelectorAll d sel_images)"
    using assms(2-4) by (rule source_in_images)
  from assms(5) have "js_or (src e) (href e) = src e" by (simp add: js_or_def)
  with map_of_const_type [OF img, of "\<lambda>img. js_or (src img) (href img)" "''image''"]
  have "map_of (image_candidates d) (src e) = Some ''image''"
    by (simp add: image_candidates_def)
  moreover have "map_of (link_candidates d) (src e) = None"
    using assms(6) link_candidates_keys [of d] by (auto simp: map_of_eq_None_iff)
  moreover have "map_of (script_candidates d) (src e) = None"
    using assms(7) by (simp add: map_of_eq_None_iff script_candidates_def image_image)
  ultimately have "map_of (candidates d) (src e) = Some ''image''"
    by (simp add: candidates_def predicate_candidates_def map_add_def)
  then have k: "\<lparr>url = src e, type = k\<rparr> \<in> set rs \<longleftrightarrow> k = ''image''" for k
    using assms(5) by (auto simp: rs recorded_kind_iff)
  have "type r = ''image''" if "r \<in> set rs" "url r = src e" for r
  proof -
    obtain u t where r: "r = \<lparr>url = u, type = t\<rparr>" by (cases r) simp
    with that k [of t] show ?thesis by simp
  qed
  with k [of "''image''"] k [of "''video''"] k [of "''audio''"]
    audios_subset_images [of d] video_sources_subset_images [of _ d]
  show ?thesis by simp
qed

lemma scenario_media_elements:
  "all_elements scenario_media =
     [([], blank ''html'' []),
      ([blank ''html'' []], blank ''body'' []),
      ([blank ''body'' [], blank ''html'' []],
        (blank ''video'' [''poster'', ''src''])\<lparr>src := Str ''m.mp4'', poster := Str ''p.png''\<rparr>),
      ([(blank ''video'' [''poster'', ''src''])\<lparr>src := Str ''m.mp4'', poster := Str ''p.png''\<rparr>,
        blank ''body'' [], blank ''html'' []],
        (blank ''source'' [''src''])\<lparr>src := Str ''m.mp4''\<rparr>),
      ([blank ''body'' [], blank ''html'' []], blank ''audio'' []),
      ([blank ''audio'' [], blank ''body'' [], blank ''html'' []],
        (blank ''source'' [''src''])\<lparr>src := Str ''m.mp4''\<rparr>),
      ([blank ''body'' [], blank ''html'' []],
        (blank ''object'' [''data''])\<lparr>data := Str ''p.png''\<rparr>)]"
  by (simp add: scenario_media_def all_elements_def)

theorem C10_source_recorded_as_image_witness:
  "(Str ''m.mp4'', ''video'') \<in> set (video_candidates scenario_media) \<and>
   (Str ''m.mp4'', ''audio'') \<in> set (audio_candidates scenario_media) \<and>
   getAllPageResources scenario_media =
     Inr [\<lparr>url = Str ''m.mp4'', type = ''image''\<rparr>,
          \<lparr>url = Str ''p.png'', type = ''video_poster''\<rparr>] \<and>
   \<lparr>url = Str ''m.mp4'', type = ''image''\<rparr> \<in>
     set [\<lparr>url = Str ''m.mp4'', type = ''image''\<rparr>, \<lparr>url = Str ''p.png'', type = ''video_poster''\<rparr>] \<and>
   \<lparr>url = Str ''m.mp4'', type = ''video''\<rparr> \<notin>
     set [\<lparr>url = Str ''m.mp4'', type = ''image''\<rparr>, \<lparr>url = Str ''p.png'', type = ''video_poster''\<rparr>] \<and>
   \<lparr>url = Str ''m.mp4'', type = ''audio''\<rparr> \<notin>
     set [\<lparr>url = Str ''m.mp4'', type = ''image''\<rparr>, \<lparr>url = Str ''p.png'', type = ''video_poster''\<rparr>]"
proof -
  let ?video = "(blank ''video'' [''poster'', ''src''])\<lparr>src := Str ''m.mp4'', poster := Str ''p.png''\<rparr>"
  let ?e = "(blank ''source'' [''src''])\<lparr>src := Str ''m.mp4''\<rparr>"
  have c: "link_candidates scenario_media = []" "script_candidates scenario_media = []"
    "video_candidates scenario_media =
       [(Str ''m.mp4'', ''video''), (Str ''p.png'', ''video_poster''), (Str ''m.mp4'', ''video'')]"
    "audio_candidates scenario_media = [(Str ''m.mp4'', ''audio'')]"
    using scenario_media_candidates by (simp_all add: predicate_candidates_def)
  have l: "querySelectorAll scenario_media sel_links = []"
    "querySelectorAll scenario_media sel_scripts = []"
    by code_simp+
  have h1: "([?video, blank ''body'' [], blank ''html'' []], ?e) \<in> set (all_elements scenario_media)"
    by (simp add: scenario_media_elements)
  have h2: "localName ?e = ''source''" "''src'' \<in> set (attributes ?e)" "truthy (src ?e)"
    by (simp_all add: blank_def)
  have h3: "src ?e \<notin> href ` set (querySelectorAll scenario_media sel_links)"
    "src ?e \<notin> src ` set (querySelectorAll scenario_media sel_scripts)"
    by (simp_all add: l)
  have s: "src ?e = Str ''m.mp4''" by (simp add: blank_def)
  from C10_source_recorded_as_image [OF scenario_media_scan h1 h2 h3] c(3,4) scenario_media_scan
  show ?thesis by (simp add: s)
qed


subsection \<open>The expression matches once, leftmost\<close>

lemma startsWith_append: "startsWith s p \<Longrightarrow> startsWith (s @ t) p"
  by (induction s p rule: startsWith.induct) simp_all

lemma startsWith_length: "startsWith s p \<Longrightarrow> length p \<le> length s"
  by (induction s p rule: startsWith.induct) simp_all

lemma startsWith_append_long: "length p \<le> length s \<Longrightarrow> startsWith (s @ t) p = startsWith s p"
  by (induction s p rule: startsWith.induct) simp_all

lemma closes_append: "closes s \<Longrightarrow> closes (s @ t)"
  by (cases s; cases "tl s") auto

lemma closes_append_long: "closes ((c # d # ds) @ t) = closes (c # d # ds)"
  by simp

lemma line_terminator_append: "line_terminator s \<Longrightarrow> line_terminator (s @ t)"
  by (cases s) auto

lemma lazy_group_single: "lazy_group [d] = Some g \<Longrightarrow> d = CHR '')''"
  by (auto split: if_splits)

lemma lazy_group_append: "lazy_group s = Some g \<Longrightarrow> lazy_group (s @ t) = Some g"
proof (induction s arbitrary: g)
  case Nil
  then show ?case by simp
next
  case (Cons c cs)
  show ?case
  proof (cases "closes (c # cs)")
    case True
    with Cons.prems have "g = []" by simp
    moreover from True have "closes ((c # cs) @ t)" by (rule closes_append)
    ultimately show ?thesis by simp
  next
    case False
    with Cons.prems have nl: "\<not> line_terminator (c # cs)"
      and "map_option ((#) c) (lazy_group cs) = Some g"
      by (auto split: if_splits)
    then obtain g' where g': "lazy_group cs = Some g'" "g = c # g'" by auto
    then obtain d ds where cs: "cs = d # ds" by (cases cs) auto
    have 1: "\<not> closes ((c # cs) @ t)" using False by (simp add: cs)
    have 2: "\<not> line_terminator ((c # cs) @ t)"
    proof (cases ds)
      case Nil
      from g'(1) have "lazy_group [d] = Some g'" unfolding cs Nil .
      then have "d = CHR '')''" by (rule lazy_group_single)
      with nl Nil cs show ?thesis by auto
    next
      case (Cons x xs)
      with nl cs show ?thesis by auto
    qed
    from Cons.IH [OF g'(1)] have "lazy_group (cs @ t) = Some g'" .
    with 1 2 g'(2) show ?thesis by simp
  qed
qed

lemma lazy_group_has_close: "lazy_group s = Some g \<Longrightarrow> has_close s"
  by (induction s arbitrary: g) (auto split: if_splits)

lemma lazy_group_append_None:
  "lazy_group s = None \<Longrightarrow> has_close s \<Longrightarrow> lazy_group (s @ t) = None"
proof (induction s)
  case Nil
  then show ?case by simp
next
  case (Cons c cs)
  from Cons.prems(1) have nc: "\<not> closes (c # cs)" by (auto split: if_splits)
  with Cons.prems(2) have hc: "has_close cs" by (simp del: closes.simps)
  then obtain d ds where cs: "cs = d # ds" by (cases cs) auto
  have 1: "\<not> closes ((c # cs) @ t)" using nc by (simp add: cs)
  show ?case
  proof (cases "line_terminator ((c # cs) @ t)")
    case True
    with 1 show ?thesis by simp
  next
    case False
    then have "\<not> line_terminator (c # cs)" using line_terminator_append by blast
    with Cons.prems(1) nc have "lazy_group cs = None" by (auto split: if_splits)
    from Cons.IH [OF this hc] have "lazy_group (cs @ t) = None" .
    with 1 False show ?thesis by simp
  qed
qed

lemma closes_lazy_group: "closes s \<Longrightarrow> lazy_group s = Some []"
  by (cases s) simp_all

lemma lazy_group_quote_None:
  assumes "is_quote q" "lazy_group r = None"
  shows "lazy_group (q # r) = None"
proof -
  have "\<not> closes (q # r)"
  proof
    assume c: "closes (q # r)"
    from assms(1) have "q \<noteq> CHR '')''" by (auto simp: is_quote_def)
    with c obtain d ds where "r = d # ds" "d = CHR '')''" by (cases r) auto
    then have "closes r" by simp
    then have "lazy_group r = Some []" by (rule closes_lazy_group)
    with assms(2) show False by simp
  qed
  with assms(2) show ?thesis by (simp del: closes.simps line_terminator.simps)
qed

lemma match_here_append: "match_here s = Some g \<Longrightarrow> match_here (s @ t) = Some g"
proof -
  assume m: "match_here s = Some g"
  then have sw: "startsWith s ''url(''" by (auto simp: match_here_def split: if_splits)
  then have len: "4 \<le> length s" by (auto dest: startsWith_length)
  from sw have sw': "startsWith (s @ t) ''url(''" by (rule startsWith_append)
  from m sw obtain q r where qr: "drop 4 s = q # r"
    by (cases "drop 4 s") (auto simp: match_here_def)
  from len have d: "drop 4 (s @ t) = q # (r @ t)" by (simp add: qr)
  from m sw qr have a: "(if is_quote q
      then (case lazy_group r of Some g \<Rightarrow> Some g | None \<Rightarrow> lazy_group (q # r))
      else lazy_group (q # r)) = Some g"
    by (simp add: match_here_def del: lazy_group.simps)
  have e: "(if is_quote q
      then (case lazy_group (r @ t) of Some g \<Rightarrow> Some g | None \<Rightarrow> lazy_group (q # (r @ t)))
      else lazy_group (q # (r @ t))) = Some g"
  proof (cases "is_quote q")
    case True
    show ?thesis
    proof (cases "lazy_group r")
      case None
      with True have "lazy_group (q # r) = None" by (rule lazy_group_quote_None)
      with a True None show ?thesis by (simp del: lazy_group.simps)
    next
      case (Some g')
      with a True have "lazy_group r = Some g" by (simp del: lazy_group.simps)
      then have "lazy_group (r @ t) = Some g" by (rule lazy_group_append)
      with True show ?thesis by (simp only: if_True option.case)
    qed
  next
    case False
    with a have "lazy_group (q # r) = Some g" by (simp del: lazy_group.simps)
    then have "lazy_group ((q # r) @ t) = Some g" by (rule lazy_group_append)
    then have "lazy_group (q # (r @ t)) = Some g" by (simp only: append_Cons)
    with False show ?thesis by (simp only: if_False)
  qed
  show ?thesis unfolding match_here_def by (simp only: sw' d e if_True list.case)
qed

lemma has_close_append_left: "has_close s \<Longrightarrow> has_close (p @ s)"
  by (induction p) simp_all

lemma has_close_drop: "has_close (drop k s) \<Longrightarrow> has_close s"
  using has_close_append_left [of "drop k s" "take k s"] by simp

lemma match_here_has_close: "match_here s = Some g \<Longrightarrow> has_close (drop 4 s)"
proof -
  assume m: "match_here s = Some g"
  then have sw: "startsWith s ''url(''" by (auto simp: match_here_def split: if_splits)
  from m sw obtain q r where qr: "drop 4 s = q # r"
    by (cases "drop 4 s") (auto simp: match_here_def)
  from m sw qr have "lazy_group r = Some g \<or> lazy_group (q # r) = Some g"
    by (auto simp: match_here_def simp del: lazy_group.simps split: if_splits option.splits)
  then have "has_close (q # r)"
  proof
    assume "lazy_group r = Some g"
    then have "has_close r" by (rule lazy_group_has_close)
    then show ?thesis by simp
  next
    assume "lazy_group (q # r) = Some g"
    then show ?thesis by (rule lazy_group_has_close)
  qed
  with qr show ?thesis by simp
qed

lemma url_match_has_close: "url_match s = Some g \<Longrightarrow> has_close (drop 4 s)"
proof (induction s)
  case Nil
  then show ?case by simp
next
  case (Cons c cs)
  show ?case
  proof (cases "match_here (c # cs)")
    case (Some g')
    then show ?thesis by (rule match_here_has_close)
  next
    case None
    with Cons.prems have "url_match cs = Some g" by simp
    then have "has_close (drop 4 cs)" by (rule Cons.IH)
    then have "has_close (drop 1 (drop 3 cs))" by simp
    then have "has_close (drop 3 cs)" by (rule has_close_drop)
    then show ?thesis by simp
  qed
qed

lemma match_here_append_None:
  assumes "url_match cs = Some g" "match_here (c # cs) = None"
  shows "match_here ((c # cs) @ t) = None"
proof -
  from assms(1) have hr: "has_close (drop 4 cs)" by (rule url_match_has_close)
  then have "has_close (drop 1 (drop 3 cs))" by simp
  then have hq: "has_close (drop 3 cs)" by (rule has_close_drop)
  then obtain q r where qr: "drop 3 cs = q # r" by (cases "drop 3 cs") auto
  have "drop 4 cs = drop 1 (drop 3 cs)" by simp
  then have r: "drop 4 cs = r" by (simp only: qr drop_Cons' if_False One_nat_def) simp
  from qr have len: "4 \<le> length (c # cs)" by (cases "length cs \<le> 3") auto
  have "drop 4 (c # cs) = drop 3 cs" by simp
  then have d0: "drop 4 (c # cs) = q # r" by (simp only: qr)
  from len have "drop 4 ((c # cs) @ t) = drop 4 (c # cs) @ t" by simp
  then have d: "drop 4 ((c # cs) @ t) = q # (r @ t)" by (simp only: d0 append_Cons)
  show ?thesis
  proof (cases "startsWith (c # cs) ''url(''")
    case False
    moreover from len have "length ''url('' \<le> length (c # cs)" by simp
    then have "startsWith ((c # cs) @ t) ''url('' = startsWith (c # cs) ''url(''"
      by (rule startsWith_append_long)
    ultimately have "\<not> startsWith ((c # cs) @ t) ''url(''" by blast
    then show ?thesis unfolding match_here_def by (simp only: if_False)
  next
    case True
    from hq have hq': "has_close (q # r)" unfolding qr .
    from hr have hr': "has_close r" unfolding r .
    have n1: "lazy_group (q # (r @ t)) = None" if "lazy_group (q # r) = None"
    proof -
      from that hq' have "lazy_group ((q # r) @ t) = None" by (rule lazy_group_append_None)
      then show ?thesis by (simp only: append_Cons)
    qed
    have n2: "lazy_group (r @ t) = None" if "lazy_group r = None"
      using that hr' by (rule lazy_group_append_None)
    from True have sw: "startsWith ((c # cs) @ t) ''url(''" by (rule startsWith_append)
    from assms(2) True d0 have a: "(if is_quote q
        then (case lazy_group r of Some g \<Rightarrow> Some g | None \<Rightarrow> lazy_group (q # r))
        else lazy_group (q # r)) = None"
      unfolding match_here_def by (simp only: if_True list.case)
    have e: "(if is_quote q
        then (case lazy_group (r @ t) of Some g \<Rightarrow> Some g | None \<Rightarrow> lazy_group (q # (r @ t)))
        else lazy_group (q # (r @ t))) = None"
    proof (cases "is_quote q")
      case True
      with a have "lazy_group r = None" "lazy_group (q # r) = None"
        by (simp_all del: lazy_group.simps split: option.splits)
      then have "lazy_group (r @ t) = None" "lazy_group (q # (r @ t)) = None"
        by (simp_all only: n1 n2)
      with True show ?thesis by (simp only: if_True option.case)
    next
      case False
      with a have "lazy_group (q # r) = None" by (simp del: lazy_group.simps)
      then have "lazy_group (q # (r @ t)) = None" by (rule n1)
      with False show ?thesis by (simp only: if_False)
    qed
    show ?thesis unfolding match_here_def by (simp only: sw d e if_True list.case)
  qed
qed

lemma url_match_append: "url_match s = Some g \<Longrightarrow> url_match (s @ t) = Some g"
proof (induction s)
  case Nil
  then show ?case by simp
next
  case (Cons c cs)
  show ?case
  proof (cases "match_here (c # cs)")
    case (Some g')
    with Cons.prems have "g' = g" by simp
    with Some have "match_here (c # cs) = Some g" by simp
    then have "match_here ((c # cs) @ t) = Some g" by (rule match_here_append)
    then show ?thesis by simp
  next
    case None
    with Cons.prems have u: "url_match cs = Some g" by simp
    then have "url_match (cs @ t) = Some g" by (rule Cons.IH)
    moreover from u None have "match_here ((c # cs) @ t) = None" by (rule match_here_append_None)
    ultimately show ?thesis by simp
  qed
qed

lemma line_terminator_head:
  "line_terminator t \<Longrightarrow> \<exists>c cs. t = c # cs \<and> (c = CHR 0x0A \<or> c = CHR 0x0D \<or> c = CHR 0xE2)"
  by (cases t) auto

lemma closes_head:
  "closes rest \<Longrightarrow> \<exists>c cs. rest = c # cs \<and> (c = CHR '')'' \<or> is_quote c)"
  by (cases rest) auto

text \<open>The group of an address that is followed by what closes it.\<close>

lemma lazy_group_text:
  assumes "CHR '')'' \<notin> set g" "\<not> has_line_terminator g" "closes rest"
    and "g \<noteq> [] \<Longrightarrow> is_quote (last g) \<Longrightarrow> hd rest \<noteq> CHR '')''"
  shows "lazy_group (g @ rest) = Some g"
  using assms
proof (induction g)
  case Nil
  then show ?case by (simp add: closes_lazy_group)
next
  case (Cons c g)
  from Cons.prems(3) obtain x xs where rest: "rest = x # xs" "x = CHR '')'' \<or> is_quote x"
    by (auto dest: closes_head)
  have c: "c \<noteq> CHR '')''" using Cons.prems(1) by auto
  have nc: "\<not> closes (c # g @ rest)"
  proof (cases g)
    case Nil
    with Cons.prems(4) c rest show ?thesis by auto
  next
    case (Cons y ys)
    with Cons.prems(1) c show ?thesis by auto
  qed
  have nl: "\<not> line_terminator (c # g @ rest)"
  proof -
    from Cons.prems(2) have n: "\<not> line_terminator (c # g)" by simp
    show ?thesis
    proof (cases g)
      case Nil
      with n rest show ?thesis by (auto simp: is_quote_def)
    next
      case g: (Cons y ys)
      show ?thesis
      proof (cases ys)
        case Nil
        with n g rest show ?thesis by (auto simp: is_quote_def)
      next
        case (Cons z zs)
        with n g show ?thesis by auto
      qed
    qed
  qed
  have "lazy_group (g @ rest) = Some g"
  proof (rule Cons.IH)
    show "CHR '')'' \<notin> set g" using Cons.prems(1) by simp
    show "\<not> has_line_terminator g" using Cons.prems(2) by simp
    show "closes rest" by (rule Cons.prems(3))
    show "hd rest \<noteq> CHR '')''" if "g \<noteq> []" "is_quote (last g)"
      using that Cons.prems(4) by simp
  qed
  with nc nl show ?case by (simp del: closes.simps line_terminator.simps)
qed

lemma url_match_unquoted:
  assumes "url_text g" "g = [] \<or> (\<not> is_quote (hd g) \<and> \<not> is_quote (last g))"
  shows "url_match (''url('' @ g @ '')'' @ after) = Some g"
proof -
  have "lazy_group (g @ '')'' @ after) = Some g"
    using assms by (intro lazy_group_text) (auto simp: url_text_def)
  moreover have "\<not> is_quote (hd (g @ '')'' @ after))"
    using assms(2) by (cases g) (simp_all add: is_quote_def)
  ultimately have "match_here (''url('' @ g @ '')'' @ after) = Some g"
    by (cases "g @ '')'' @ after") (simp_all add: match_here_def del: lazy_group.simps)
  then show ?thesis by simp
qed

lemma url_match_quoted:
  assumes "url_text g" "is_quote q" "is_quote q'"
  shows "url_match (''url('' @ [q] @ g @ [q'] @ '')'' @ after) = Some g"
proof -
  from assms(3) have "q' \<noteq> CHR '')''" by (auto simp: is_quote_def)
  then have "lazy_group (g @ [q'] @ '')'' @ after) = Some g"
    using assms(1,3) by (intro lazy_group_text) (auto simp: url_text_def)
  with assms(2) have "match_here (''url('' @ [q] @ g @ [q'] @ '')'' @ after) = Some g"
    by (simp add: match_here_def del: lazy_group.simps)
  then show ?thesis by simp
qed

text \<open>Text before the first \<^verbatim>\<open>url(\<close> is passed over.\<close>

lemma url_match_prefix: "\<not> begins_url pre v \<Longrightarrow> url_match (pre @ v) = url_match v"
proof (induction pre)
  case Nil
  then show ?case by simp
next
  case (Cons c cs)
  then have ns: "\<not> startsWith (c # cs @ v) ''url(''" and u: "url_match (cs @ v) = url_match v"
    by (simp_all del: startsWith.simps)
  from ns have "match_here (c # cs @ v) = None" by (simp only: match_here_def if_False)
  with u show ?case by (simp del: startsWith.simps)
qed

text \<open>Text with no closing parenthesis before a line terminator never matches.\<close>

lemma lazy_group_line_terminator:
  "CHR '')'' \<notin> set b \<Longrightarrow> line_terminator t \<Longrightarrow> lazy_group (b @ t) = None"
proof (induction b)
  case Nil
  then obtain c cs where t: "t = c # cs" "c = CHR 0x0A \<or> c = CHR 0x0D \<or> c = CHR 0xE2"
    by (auto dest: line_terminator_head)
  then have "\<not> closes t" by (auto simp: is_quote_def)
  with Nil show ?case by (simp add: t(1) del: closes.simps line_terminator.simps)
next
  case (Cons c b)
  from Cons.prems(2) obtain x xs where t: "t = x # xs" "x = CHR 0x0A \<or> x = CHR 0x0D \<or> x = CHR 0xE2"
    by (auto dest: line_terminator_head)
  have "\<not> closes (c # b @ t)"
  proof (cases b)
    case Nil
    with Cons.prems(1) t show ?thesis by auto
  next
    case (Cons y ys)
    with Cons.prems(1) show ?thesis by auto
  qed
  moreover from Cons have "lazy_group (b @ t) = None" by simp
  ultimately show ?case by (simp del: closes.simps line_terminator.simps)
qed

lemma startsWith_short:
  "line_terminator t \<Longrightarrow> length w < 4 \<Longrightarrow> \<not> startsWith (w @ t) ''url(''"
proof -
  assume lt: "line_terminator t" and len: "length w < 4"
  from lt obtain x xs where t: "t = x # xs" "x = CHR 0x0A \<or> x = CHR 0x0D \<or> x = CHR 0xE2"
    by (auto dest: line_terminator_head)
  consider "w = []" | a where "w = [a]" | a b where "w = [a, b]" | a b c where "w = [a, b, c]"
    using len by (cases w; cases "tl w"; cases "tl (tl w)"; cases "tl (tl (tl w))") auto
  then show ?thesis using t by cases auto
qed

lemma match_here_line_terminator:
  assumes "CHR '')'' \<notin> set w" "line_terminator t"
  shows "match_here (w @ t) = None"
proof (cases "startsWith (w @ t) ''url(''")
  case False
  then show ?thesis by (simp add: match_here_def)
next
  case True
  with startsWith_short [OF assms(2), of w] have "\<not> length w < 4" by blast
  then have len: "4 \<le> length w" by simp
  then have d: "drop 4 (w @ t) = drop 4 w @ t" by simp
  have b: "CHR '')'' \<notin> set (drop 4 w)" using assms(1) by (auto dest: in_set_dropD)
  show ?thesis
  proof (cases "drop 4 w")
    case Nil
    from assms(2) obtain x xs where t: "t = x # xs" "x = CHR 0x0A \<or> x = CHR 0x0D \<or> x = CHR 0xE2"
      by (auto dest: line_terminator_head)
    have "lazy_group ([] @ t) = None" using assms(2) by (intro lazy_group_line_terminator) simp
    then have "lazy_group (x # xs) = None" by (simp add: t(1) del: lazy_group.simps)
    moreover from t have "\<not> is_quote x" by (auto simp: is_quote_def)
    ultimately show ?thesis
      using True d Nil t(1) by (simp add: match_here_def del: lazy_group.simps)
  next
    case (Cons q r)
    with b have br: "CHR '')'' \<notin> set r" and bq: "CHR '')'' \<notin> set (q # r)" by simp_all
    from br assms(2) have "lazy_group (r @ t) = None" by (rule lazy_group_line_terminator)
    moreover from bq assms(2) have "lazy_group ((q # r) @ t) = None"
      by (rule lazy_group_line_terminator)
    then have "lazy_group (q # r @ t) = None" by (simp only: append_Cons)
    ultimately have "lazy_group (r @ t) = None" "lazy_group (q # r @ t) = None" by blast+
    then show ?thesis
      using True d Cons by (simp add: match_here_def del: lazy_group.simps)
  qed
qed

lemma url_match_line_terminator:
  "CHR '')'' \<notin> set w \<Longrightarrow> line_terminator t \<Longrightarrow> url_match (w @ t) = url_match t"
proof (induction w)
  case Nil
  then show ?case by simp
next
  case (Cons c w)
  then have "url_match (w @ t) = url_match t" by simp
  moreover from Cons.prems have "match_here ((c # w) @ t) = None"
    by (rule match_here_line_terminator)
  then have "match_here (c # w @ t) = None" by (simp only: append_Cons)
  ultimately show ?case by simp
qed

lemma has_line_terminator_append:
  "has_line_terminator g \<Longrightarrow> has_line_terminator (g @ t)"
proof (induction g)
  case Nil
  then show ?case by simp
next
  case (Cons c g)
  from Cons.prems have "line_terminator (c # g) \<or> has_line_terminator g" by simp
  then show ?case
  proof
    assume "line_terminator (c # g)"
    then have "line_terminator ((c # g) @ t)" by (rule line_terminator_append)
    then show ?thesis by (simp del: line_terminator.simps)
  next
    assume "has_line_terminator g"
    then have "has_line_terminator (g @ t)" by (rule Cons.IH)
    then show ?thesis by (simp del: line_terminator.simps)
  qed
qed

text \<open>The group of the text up to the first closing parenthesis.\<close>

lemma lazy_group_close:
  assumes "url_text b"
  shows "lazy_group (b @ CHR '')'' # after) =
           Some (if b \<noteq> [] \<and> is_quote (last b) then butlast b else b)"
proof (cases "b \<noteq> [] \<and> is_quote (last b)")
  case True
  then have b: "b = butlast b @ [last b]" by simp
  from assms have "CHR '')'' \<notin> set b" "\<not> has_line_terminator b" by (simp_all add: url_text_def)
  with b have g: "CHR '')'' \<notin> set (butlast b)" "\<not> has_line_terminator (butlast b)"
    by (metis in_set_butlastD, metis has_line_terminator_append)
  from True have q: "last b \<noteq> CHR '')''" by (auto simp: is_quote_def)
  have "lazy_group (butlast b @ (last b # CHR '')'' # after)) = Some (butlast b)"
  proof (rule lazy_group_text)
    show "CHR '')'' \<notin> set (butlast b)" by (rule g(1))
    show "\<not> has_line_terminator (butlast b)" by (rule g(2))
    show "closes (last b # CHR '')'' # after)" using True by simp
    show "hd (last b # CHR '')'' # after) \<noteq> CHR '')''" using q by simp
  qed
  moreover have "b @ CHR '')'' # after = butlast b @ (last b # CHR '')'' # after)"
    using True by simp
  ultimately have "lazy_group (b @ CHR '')'' # after) = Some (butlast b)" by (simp only:)
  with True show ?thesis by simp
next
  case False
  have "lazy_group (b @ (CHR '')'' # after)) = Some b"
  proof (rule lazy_group_text)
    show "CHR '')'' \<notin> set b" "\<not> has_line_terminator b"
      using assms by (simp_all add: url_text_def)
    show "closes (CHR '')'' # after)" by simp
    show "hd (CHR '')'' # after) \<noteq> CHR '')''" if "b \<noteq> []" "is_quote (last b)"
      using that False by blast
  qed
  with False show ?thesis by (simp only: if_False)
qed

lemma url_text_tl: "url_text (q # a) \<Longrightarrow> url_text a"
  by (simp add: url_text_def)

lemma url_match_first:
  assumes "url_text a"
  shows "url_match (''url('' @ a @ '')'' @ after) = Some (unquote a)"
proof (cases a)
  case Nil
  then show ?thesis by (simp add: match_here_def unquote_def is_quote_def)
next
  case (Cons q a')
  show ?thesis
  proof (cases "is_quote q")
    case True
    from assms Cons have "url_text a'" by (simp add: url_text_tl)
    then have "lazy_group (a' @ CHR '')'' # after) =
        Some (if a' \<noteq> [] \<and> is_quote (last a') then butlast a' else a')"
      by (rule lazy_group_close)
    with True have "match_here (''url('' @ (q # a') @ '')'' @ after) =
        Some (if a' \<noteq> [] \<and> is_quote (last a') then butlast a' else a')"
      by (simp add: match_here_def del: lazy_group.simps)
    moreover have "unquote (q # a') = (if a' \<noteq> [] \<and> is_quote (last a') then butlast a' else a')"
      using True by (simp add: unquote_def)
    ultimately show ?thesis by (simp add: Cons)
  next
    case False
    from assms Cons have "lazy_group ((q # a') @ CHR '')'' # after) =
        Some (if (q # a') \<noteq> [] \<and> is_quote (last (q # a')) then butlast (q # a') else (q # a'))"
      by (intro lazy_group_close) simp
    then have "lazy_group (q # a' @ CHR '')'' # after) =
        Some (if (q # a') \<noteq> [] \<and> is_quote (last (q # a')) then butlast (q # a') else (q # a'))"
      by (simp only: append_Cons)
    with False have "match_here (''url('' @ (q # a') @ '')'' @ after) =
        Some (if (q # a') \<noteq> [] \<and> is_quote (last (q # a')) then butlast (q # a') else (q # a'))"
      by (simp add: match_here_def del: lazy_group.simps)
    moreover have "unquote (q # a') =
        (if (q # a') \<noteq> [] \<and> is_quote (last (q # a')) then butlast (q # a') else (q # a'))"
      using False by (simp add: unquote_def)
    ultimately show ?thesis by (simp add: Cons)
  qed
qed

text \<open>A value with no closing parenthesis does not match.\<close>

lemma no_close: "CHR '')'' \<notin> set v \<Longrightarrow> \<not> has_close v"
proof (induction v)
  case Nil
  then show ?case by simp
next
  case (Cons c v)
  then have "\<not> closes (c # v)" by (cases v) auto
  with Cons show ?case by (simp del: closes.simps)
qed

lemma url_match_no_close: "CHR '')'' \<notin> set v \<Longrightarrow> url_match v = None"
proof -
  assume "CHR '')'' \<notin> set v"
  then have "CHR '')'' \<notin> set (drop 4 v)" by (auto dest: in_set_dropD)
  then have "\<not> has_close (drop 4 v)" by (rule no_close)
  then show ?thesis using url_match_has_close [of v] by (cases "url_match v") auto
qed

lemma css_url_calls_length: "length (css_url_calls t v) \<le> 1"
  by (simp add: css_url_calls_def split: option.split)

lemma length_addResource: "length (resources (addResource u t s)) \<le> Suc (length (resources s))"
  by (simp add: addResource_def push_def)

lemma length_css_url_calls:
  "length (resources (add_all (css_url_calls t v) s)) \<le> Suc (length (resources s))"
  using length_addResource [of _ t s]
  by (auto simp: css_url_calls_def split: option.split)

lemma scenario_layers_scan:
  "getAllPageResources scenario_layers =
     Inr [\<lparr>url = Str ''a.png'', type = ''css_background_image''\<rparr>,
          \<lparr>url = Str ''b.png'', type = ''css_background_image''\<rparr>]"
  by code_simp

lemma broken_div_match: "url_match (backgroundImage broken_div) = Some ''b.png''"
  by code_simp

text \<open>
  C8, as the specification states it, fails: the value of \<open>broken_div\<close> holds two
  \<^verbatim>\<open>url(...)\<close> occurrences, the first with a line feed in it; the extraction captures
  the address of the second, and the scan records it.
\<close>

theorem C8_counterexample:
  "backgroundImage broken_div =
     ''url(a'' @ [CHR 0x0A] @ ''b), url('' @ [CHR 0x22] @ ''b.png'' @ [CHR 0x22] @ '')'' \<and>
   url_match (backgroundImage broken_div) = Some ''b.png'' \<and>
   resources (background_callback broken_div \<lparr>document = scenario_layers, resources = []\<rparr>) =
     [\<lparr>url = Str ''b.png'', type = ''css_background_image''\<rparr>] \<and>
   getAllPageResources scenario_layers =
     Inr [\<lparr>url = Str ''a.png'', type = ''css_background_image''\<rparr>,
          \<lparr>url = Str ''b.png'', type = ''css_background_image''\<rparr>]"
proof -
  have 1: "backgroundImage broken_div =
     ''url(a'' @ [CHR 0x0A] @ ''b), url('' @ [CHR 0x22] @ ''b.png'' @ [CHR 0x22] @ '')''"
    by (simp add: broken_div_def broken_layer_def second_layer_def blank_def)
  have 2: "resources (background_callback broken_div \<lparr>document = scenario_layers, resources = []\<rparr>) =
     [\<lparr>url = Str ''b.png'', type = ''css_background_image''\<rparr>]"
    by (simp add: background_callback_def broken_div_match addResource_def push_def)
  from 1 2 broken_div_match scenario_layers_scan show ?thesis by blast
qed

text \<open>
  C8, amended. The extraction returns group 1 of the leftmost match of the expression
  and nothing else. When a value matches with group \<open>g\<close>, the value followed by any
  text (further layers, a fallback list) matches with the same group; text before the
  first \<^verbatim>\<open>url(\<close> does not change the result. When the text \<open>a\<close> between a first
  \<^verbatim>\<open>url(\<close> and the first closing parenthesis has no line terminator, the group is
  \<open>a\<close> without its quotes, whatever follows: \<open>g\<close> for \<^verbatim>\<open>url(g)\<close> where \<open>g\<close>
  neither starts nor ends with a quote, and for \<^verbatim>\<open>url("g")\<close> in either kind of quotes.
  An occurrence with a line terminator before any closing parenthesis does not match,
  and the search goes on after it, so that a later occurrence is captured; a value with
  no closing parenthesis does not match. The callback of the background predicate, and
  that of the font predicate on a font-face rule, call \<^verbatim>\<open>addResource\<close> once, with the
  group of the value, when it matches with a non-empty group, and leave the state as it
  is otherwise: one value gives at most one candidate and at most one record.
\<close>

theorem C8_leftmost_match:
  "(url_match v = Some g \<longrightarrow> url_match (v @ after) = Some g) \<and>
   (\<not> begins_url pre v \<longrightarrow> url_match (pre @ v) = url_match v) \<and>
   (url_text a \<longrightarrow> url_match (''url('' @ a @ '')'' @ after) = Some (unquote a)) \<and>
   (url_text g \<and> (g = [] \<or> \<not> is_quote (hd g) \<and> \<not> is_quote (last g)) \<longrightarrow>
      url_match (''url('' @ g @ '')'' @ after) = Some g) \<and>
   (url_text g \<and> is_quote q \<and> is_quote q' \<longrightarrow>
      url_match (''url('' @ [q] @ g @ [q'] @ '')'' @ after) = Some g) \<and>
   (CHR '')'' \<notin> set body \<and> line_terminator t \<longrightarrow>
      url_match (''url('' @ body @ t) = url_match t) \<and>
   (CHR '')'' \<notin> set v \<longrightarrow> url_match v = None) \<and>
   (url_match (backgroundImage element) = Some g \<and> g \<noteq> [] \<longrightarrow>
      background_callback element s = addResource (Str g) ''css_background_image'' s) \<and>
   (url_match (backgroundImage element) = None \<or> url_match (backgroundImage element) = Some [] \<longrightarrow>
      background_callback element s = s) \<and>
   (url_match style_src = Some g \<and> g \<noteq> [] \<longrightarrow>
      rule_callback (CSSFontFaceRule style_src) s = addResource (Str g) ''font'' s) \<and>
   (url_match style_src = None \<or> url_match style_src = Some [] \<longrightarrow>
      rule_callback (CSSFontFaceRule style_src) s = s) \<and>
   rule_callback OtherRule s = s \<and>
   length (css_url_calls k v) \<le> 1 \<and>
   length (resources (background_callback element s)) \<le> Suc (length (resources s)) \<and>
   length (resources (rule_callback rule s)) \<le> Suc (length (resources s))"
proof (intro conjI impI)
  show "url_match (v @ after) = Some g" if "url_match v = Some g"
    using that by (rule url_match_append)
  show "url_match (pre @ v) = url_match v" if "\<not> begins_url pre v"
    using that by (rule url_match_prefix)
  show "url_match (''url('' @ a @ '')'' @ after) = Some (unquote a)" if "url_text a"
    using that by (rule url_match_first)
  show "url_match (''url('' @ g @ '')'' @ after) = Some g"
    if "url_text g \<and> (g = [] \<or> \<not> is_quote (hd g) \<and> \<not> is_quote (last g))"
    using that by (intro url_match_unquoted) blast+
  show "url_match (''url('' @ [q] @ g @ [q'] @ '')'' @ after) = Some g"
    if "url_text g \<and> is_quote q \<and> is_quote q'"
    using that by (simp only: url_match_quoted)
  show "url_match (''url('' @ body @ t) = url_match t"
    if "CHR '')'' \<notin> set body \<and> line_terminator t"
  proof -
    from that have "CHR '')'' \<notin> set (''url('' @ body)" by simp
    with that have "url_match ((''url('' @ body) @ t) = url_match t"
      by (intro url_match_line_terminator) blast+
    then show ?thesis by (simp only: append_assoc)
  qed
  show "url_match v = None" if "CHR '')'' \<notin> set v"
    using that by (rule url_match_no_close)
  show "background_callback element s = addResource (Str g) ''css_background_image'' s"
    if "url_match (backgroundImage element) = Some g \<and> g \<noteq> []"
    using that by (simp add: background_callback_def)
  show "background_callback element s = s"
    if "url_match (backgroundImage element) = None \<or> url_match (backgroundImage element) = Some []"
    using that by (auto simp: background_callback_def)
  show "rule_callback (CSSFontFaceRule style_src) s = addResource (Str g) ''font'' s"
    if "url_match style_src = Some g \<and> g \<noteq> []"
    using that by (simp add: rule_callback_def)
  show "rule_callback (CSSFontFaceRule style_src) s = s"
    if "url_match style_src = None \<or> url_match style_src = Some []"
    using that by (auto simp: rule_callback_def)
  show "rule_callback OtherRule s = s" by (simp add: rule_callback_def)
  show "length (css_url_calls k v) \<le> 1" by (rule css_url_calls_length)
  show "length (resources (background_callback element s)) \<le> Suc (length (resources s))"
    by (simp only: background_callback_calls length_css_url_calls)
  show "length (resources (rule_callback rule s)) \<le> Suc (length (resources s))"
    by (cases rule) (simp_all add: rule_callback_calls rule_calls_def length_css_url_calls)
qed

theorem C8_leftmost_match_witness:
  "url_text ''a.png'' \<and> is_quote (CHR 0x22) \<and>
   url_match first_layer = Some ''a.png'' \<and>
   url_match (first_layer @ second_layer) = Some ''a.png'' \<and>
   \<not> begins_url ''none, '' first_layer \<and>
   url_match (''none, '' @ first_layer) = Some ''a.png'' \<and>
   url_text (CHR 0x27 # ''a.png'') \<and>
   url_match (''url('' @ (CHR 0x27 # ''a.png'') @ '')'' @ second_layer) = Some ''a.png'' \<and>
   CHR '')'' \<notin> set ''a'' \<and> line_terminator (CHR 0x0A # ''b)'' @ second_layer) \<and>
   url_match (''url('' @ ''a'' @ CHR 0x0A # ''b)'' @ second_layer) =
     url_match (CHR 0x0A # ''b)'' @ second_layer) \<and>
   CHR '')'' \<notin> set ''url(a.png'' \<and> url_match ''url(a.png'' = None \<and>
   background_callback two_layer_div \<lparr>document = scenario_layers, resources = []\<rparr> =
     addResource (Str ''a.png'') ''css_background_image''
       \<lparr>document = scenario_layers, resources = []\<rparr> \<and>
   rule_callback (CSSFontFaceRule (first_layer @ second_layer))
       \<lparr>document = scenario_layers, resources = []\<rparr> =
     addResource (Str ''a.png'') ''font'' \<lparr>document = scenario_layers, resources = []\<rparr> \<and>
   resources (addResource (Str ''a.png'') ''css_background_image''
       \<lparr>document = scenario_layers, resources = []\<rparr>) =
     [\<lparr>url = Str ''a.png'', type = ''css_background_image''\<rparr>]"
proof -
  let ?s = "\<lparr>document = scenario_layers, resources = []\<rparr>"
  let ?t = "CHR 0x0A # ''b)'' @ second_layer"
  have p: "url_text ''a.png''" by (simp add: url_text_def)
  have q: "is_quote (CHR 0x22)" by (simp add: is_quote_def)
  have n: "\<not> begins_url ''none, '' first_layer" by (simp add: first_layer_def)
  have o: "url_text (CHR 0x27 # ''a.png'')" by (simp add: url_text_def)
  have u: "unquote (CHR 0x27 # ''a.png'') = ''a.png''" by (simp add: unquote_def is_quote_def)
  have b: "CHR '')'' \<notin> set ''a''" by simp
  have l: "line_terminator ?t" by simp
  have c: "CHR '')'' \<notin> set ''url(a.png''" by simp
  have e: "''a.png'' \<noteq> []" by simp
  have bg: "backgroundImage two_layer_div = first_layer @ second_layer"
    by (simp add: two_layer_div_def blank_def)
  from C8_leftmost_match [where g = "''a.png''" and after = "[]" and q = "CHR 0x22"
      and q' = "CHR 0x22"] p q
  have "url_match (''url('' @ [CHR 0x22] @ ''a.png'' @ [CHR 0x22] @ '')'' @ []) = Some ''a.png''"
    by blast
  then have 1: "url_match first_layer = Some ''a.png''" by (simp add: first_layer_def)
  with C8_leftmost_match [where v = first_layer and g = "''a.png''" and after = second_layer]
  have 2: "url_match (first_layer @ second_layer) = Some ''a.png''" by blast
  from C8_leftmost_match [where v = first_layer and pre = "''none, ''"] n
  have "url_match (''none, '' @ first_layer) = url_match first_layer" by blast
  with 1 have 3: "url_match (''none, '' @ first_layer) = Some ''a.png''" by (simp only:)
  from C8_leftmost_match [where a = "CHR 0x27 # ''a.png''" and after = second_layer] o
  have "url_match (''url('' @ (CHR 0x27 # ''a.png'') @ '')'' @ second_layer) =
      Some (unquote (CHR 0x27 # ''a.png''))"
    by blast
  with u have 4: "url_match (''url('' @ (CHR 0x27 # ''a.png'') @ '')'' @ second_layer) =
      Some ''a.png''"
    by (simp only:)
  from C8_leftmost_match [where body = "''a''" and t = ?t] b l
  have 5: "url_match (''url('' @ ''a'' @ ?t) = url_match ?t" by blast
  from C8_leftmost_match [where v = "''url(a.png''"] c
  have 6: "url_match ''url(a.png'' = None" by blast
  from 2 bg have m: "url_match (backgroundImage two_layer_div) = Some ''a.png''" by (simp only:)
  from C8_leftmost_match [where g = "''a.png''" and element = two_layer_div and s = ?s] m e
  have 7: "background_callback two_layer_div ?s =
      addResource (Str ''a.png'') ''css_background_image'' ?s"
    by blast
  from C8_leftmost_match [where g = "''a.png''" and s = ?s
      and style_src = "first_layer @ second_layer"] 2 e
  have 8: "rule_callback (CSSFontFaceRule (first_layer @ second_layer)) ?s =
      addResource (Str ''a.png'') ''font'' ?s"
    by blast
  have 9: "resources (addResource (Str ''a.png'') ''css_background_image'' ?s) =
      [\<lparr>url = Str ''a.png'', type = ''css_background_image''\<rparr>]"
    by (simp add: addResource_def push_def)
  from p q 1 2 n 3 o 4 b l 5 c 6 7 8 9 show ?thesis by blast
qed


section \<open>Properties of the timing collector\<close>

lemma loadedResources_record_entry:
  "loadedResources (record_entry entry w) = loadedResources w @ [loaded_object entry]"
  by (simp add: record_entry_def push_def)

lemma loadedResources_forEach:
  "loadedResources (forEach record_entry entries w) = loadedResources w @ map loaded_object entries"
  by (induction entries arbitrary: w) (simp_all add: forEach_def loadedResources_record_entry)

lemma loadedResources_observer:
  "loadedResources (observer entries w) = loadedResources w @ map loaded_object entries"
  by (simp add: observer_def loadedResources_forEach)

lemma loadedResources_script:
  "loadedResources (collector_script initialResources w) = map loaded_object initialResources"
  by (simp add: collector_script_def loadedResources_forEach)

lemma loadedResources_deliveries:
  "loadedResources (fold observer deliveries w) = loadedResources w @ map loaded_object (concat deliveries)"
  by (induction deliveries arbitrary: w) (simp_all add: loadedResources_observer)

lemma loadedResources_run:
  "loadedResources (collector_run initialResources deliveries w) =
     map loaded_object (initialResources @ concat deliveries)"
  by (simp add: collector_run_def loadedResources_deliveries loadedResources_script)

text \<open>
  C5, as the specification states it, fails on the names of two fields: the record
  pushed for an entry has the properties \<^verbatim>\<open>name\<close>, \<^verbatim>\<open>type\<close>, \<^verbatim>\<open>duration\<close>,
  \<^verbatim>\<open>size\<close> and \<^verbatim>\<open>startTime\<close>; it has no property \<^verbatim>\<open>initiatorType\<close> and none
  \<^verbatim>\<open>transferSize\<close>, and reading them gives \<^verbatim>\<open>undefined\<close>.
\<close>

theorem C5_counterexample:
  "loadedResources (observer [example_entry] \<lparr>loadedResources = []\<rparr>) =
     [[(''name'', PString ''https://cdn.example.com/app.css''), (''type'', PString ''link''),
       (''duration'', PNumber 12.5), (''size'', PNumber 2048), (''startTime'', PNumber 100)]] \<and>
   map fst (loaded_object example_entry) \<noteq> spec_fields \<and>
   ''initiatorType'' \<notin> set (map fst (loaded_object example_entry)) \<and>
   ''transferSize'' \<notin> set (map fst (loaded_object example_entry)) \<and>
   get_prop (loaded_object example_entry) ''initiatorType'' = PUndefined \<and>
   get_prop (loaded_object example_entry) ''transferSize'' = PUndefined"
  by (simp add: loadedResources_observer loaded_object_def example_entry_def spec_fields_def
      number_or_undefined_def get_prop_def)

text \<open>
  C5, amended. For every entry, the observer's callback and the start of the script
  append one record, with exactly the properties \<^verbatim>\<open>name\<close>, \<^verbatim>\<open>type\<close>,
  \<^verbatim>\<open>duration\<close>, \<^verbatim>\<open>size\<close>, \<^verbatim>\<open>startTime\<close>, holding the entry's \<^verbatim>\<open>name\<close>,
  \<^verbatim>\<open>initiatorType\<close>, \<^verbatim>\<open>duration\<close>, \<^verbatim>\<open>transferSize\<close> (or \<^verbatim>\<open>undefined\<close> when it is
  absent) and \<^verbatim>\<open>startTime\<close>; so the numbers are non-negative when the entry's are.
\<close>

theorem C5_record_fields_amended:
  fixes entry :: "('n::{zero,ord}) PerformanceResourceTiming"
  shows
  "loadedResources (observer [entry] w) = loadedResources w @ [loaded_object entry] \<and>
   loadedResources (collector_script [entry] w) = [loaded_object entry] \<and>
   map fst (loaded_object entry) = [''name'', ''type'', ''duration'', ''size'', ''startTime''] \<and>
   get_prop (loaded_object entry) ''name'' = PString (name entry) \<and>
   get_prop (loaded_object entry) ''type'' = PString (initiatorType entry) \<and>
   get_prop (loaded_object entry) ''duration'' = PNumber (duration entry) \<and>
   get_prop (loaded_object entry) ''size'' = number_or_undefined (transferSize entry) \<and>
   get_prop (loaded_object entry) ''startTime'' = PNumber (startTime entry) \<and>
   (0 \<le> duration entry \<longrightarrow> non_negative (get_prop (loaded_object entry) ''duration'')) \<and>
   (0 \<le> startTime entry \<longrightarrow> non_negative (get_prop (loaded_object entry) ''startTime'')) \<and>
   ((\<forall>n. transferSize entry = Some n \<longrightarrow> 0 \<le> n) \<longrightarrow>
      non_negative_or_absent (get_prop (loaded_object entry) ''size''))"
  by (simp add: loadedResources_observer loadedResources_script loaded_object_def get_prop_def
      non_negative_def non_negative_or_absent_def number_or_undefined_def split: option.split)

theorem C5_record_fields_amended_witness:
  "0 \<le> duration example_entry \<and> 0 \<le> startTime example_entry \<and>
   transferSize example_entry = Some 2048 \<and>
   get_prop (loaded_object example_entry) ''type'' = PString ''link'' \<and>
   get_prop (loaded_object example_entry) ''size'' = PNumber 2048 \<and>
   non_negative (get_prop (loaded_object example_entry) ''duration'') \<and>
   non_negative (get_prop (loaded_object example_entry) ''startTime'') \<and>
   non_negative_or_absent (get_prop (loaded_object example_entry) ''size'')"
proof -
  have h: "0 \<le> duration example_entry" "0 \<le> startTime example_entry"
    "transferSize example_entry = Some 2048"
    "\<forall>n. transferSize example_entry = Some n \<longrightarrow> 0 \<le> n"
    "initiatorType example_entry = ''link''"
    by (simp_all add: example_entry_def)
  note T = C5_record_fields_amended [of example_entry "\<lparr>loadedResources = []\<rparr>"]
  from T h(5) have 1: "get_prop (loaded_object example_entry) ''type'' = PString ''link''" by simp
  from T h(3) have 2: "get_prop (loaded_object example_entry) ''size'' = PNumber 2048"
    by (simp add: number_or_undefined_def)
  from T h(1) have 3: "non_negative (get_prop (loaded_object example_entry) ''duration'')" by blast
  from T h(2) have 4: "non_negative (get_prop (loaded_object example_entry) ''startTime'')" by blast
  from T h(4) have 5: "non_negative_or_absent (get_prop (loaded_object example_entry) ''size'')" by blast
  from h(1-3) 1 2 3 4 5 show ?thesis by blast
qed

text \<open>
  C6. After the script has run, the global holds the records of the buffered entries in
  the platform's order; a delivery appends the records of its entries, in order, to
  what is there; after any deliveries the global holds one record per entry, buffered
  or delivered, in order (so its length is the number of entries: none is dropped as a
  duplicate), and what it holds then is a prefix of what it holds after any later
  deliveries, and no longer.
\<close>

theorem C6_append_only:
  "loadedResources (collector_script initialResources w) = map loaded_object initialResources \<and>
   loadedResources (observer entries w) = loadedResources w @ map loaded_object entries \<and>
   loadedResources (collector_run initialResources deliveries w) =
     map loaded_object (initialResources @ concat deliveries) \<and>
   length (loadedResources (collector_run initialResources deliveries w)) =
     length initialResources + length (concat deliveries) \<and>
   length (loadedResources (collector_run initialResources deliveries w)) \<le>
     length (loadedResources (collector_run initialResources (deliveries @ later) w)) \<and>
   prefix (loadedResources (collector_run initialResources deliveries w))
     (loadedResources (collector_run initialResources (deliveries @ later) w))"
  by (simp add: loadedResources_script loadedResources_observer loadedResources_run)

theorem C6_append_only_witness:
  "loadedResources (collector_run [example_entry] [[example_entry, example_entry], []] \<lparr>loadedResources = []\<rparr>) =
     [loaded_object example_entry, loaded_object example_entry, loaded_object example_entry] \<and>
   prefix (loadedResources (collector_run [example_entry] [[example_entry]] \<lparr>loadedResources = []\<rparr>))
     (loadedResources (collector_run [example_entry] ([[example_entry]] @ [[example_entry]]) \<lparr>loadedResources = []\<rparr>))"
proof -
  let ?w = "\<lparr>loadedResources = []\<rparr> :: real window"
  have "loadedResources (collector_run [example_entry] [[example_entry, example_entry], []] ?w) =
      map loaded_object ([example_entry] @ concat [[example_entry, example_entry], []])"
    using C6_append_only [of "[example_entry]" ?w "[]" "[[example_entry, example_entry], []]" "[]"]
    by blast
  then have 1: "loadedResources (collector_run [example_entry] [[example_entry, example_entry], []] ?w) =
      [loaded_object example_entry, loaded_object example_entry, loaded_object example_entry]"
    by simp
  have 2: "prefix (loadedResources (collector_run [example_entry] [[example_entry]] ?w))
     (loadedResources (collector_run [example_entry] ([[example_entry]] @ [[example_entry]]) ?w))"
    using C6_append_only [of "[example_entry]" ?w "[]" "[[example_entry]]" "[[example_entry]]"]
    by blast
  from 1 2 show ?thesis by blast
qed

end
